theory Spec2Isabelle
  imports Complex_Main
begin

section \<open>Numbers and errors\<close>

text \<open>
  The calculator (\<^verbatim>\<open>calculate_vix.py\<close>) works on pandas columns of float64 values.  A
  column entry is modelled as an \<open>fnum\<close>: a finite value carried as an exact real, the two
  infinities, or not-a-number.  Rounding and overflow of finite values are not modelled;
  everything else (division by zero, propagation of NaN, comparisons with NaN being
  false) follows IEEE 754 as numpy implements it.  A zero is always the positive zero.

  The exceptions the code can raise are values of \<open>error\<close>: a failed label lookup
  (\<^verbatim>\<open>KeyError\<close>), a refused spline input (\<^verbatim>\<open>ValueError\<close>) and Python's integer
  division by zero (\<^verbatim>\<open>ZeroDivisionError\<close>).
\<close>

datatype error = KeyError | ValueError | ZeroDivisionError

datatype fnum = Fin real | PInf | NInf | NaN

fun is_Fin :: "fnum \<Rightarrow> bool" where
  "is_Fin (Fin a) = True"
| "is_Fin _ = False"

fun the_Fin :: "fnum \<Rightarrow> real" where
  "the_Fin (Fin a) = a"
| "the_Fin _ = 0"

fun fneg :: "fnum \<Rightarrow> fnum" where
  "fneg (Fin a) = Fin (- a)"
| "fneg PInf = NInf"
| "fneg NInf = PInf"
| "fneg NaN = NaN"

fun fadd :: "fnum \<Rightarrow> fnum \<Rightarrow> fnum" where
  "fadd (Fin a) (Fin b) = Fin (a + b)"
| "fadd NaN y = NaN"
| "fadd x NaN = NaN"
| "fadd PInf NInf = NaN"
| "fadd NInf PInf = NaN"
| "fadd PInf y = PInf"
| "fadd NInf y = NInf"
| "fadd x PInf = PInf"
| "fadd x NInf = NInf"

definition fsub :: "fnum \<Rightarrow> fnum \<Rightarrow> fnum" where
  "fsub x y = fadd x (fneg y)"

definition signed_inf :: "bool \<Rightarrow> fnum" where
  "signed_inf positive = (if positive then PInf else NInf)"

fun fmul :: "fnum \<Rightarrow> fnum \<Rightarrow> fnum" where
  "fmul (Fin a) (Fin b) = Fin (a * b)"
| "fmul NaN y = NaN"
| "fmul x NaN = NaN"
| "fmul (Fin a) PInf = (if a = 0 then NaN else signed_inf (0 < a))"
| "fmul (Fin a) NInf = (if a = 0 then NaN else signed_inf (a < 0))"
| "fmul PInf (Fin b) = (if b = 0 then NaN else signed_inf (0 < b))"
| "fmul NInf (Fin b) = (if b = 0 then NaN else signed_inf (b < 0))"
| "fmul PInf PInf = PInf"
| "fmul PInf NInf = NInf"
| "fmul NInf PInf = NInf"
| "fmul NInf NInf = PInf"

fun fdiv :: "fnum \<Rightarrow> fnum \<Rightarrow> fnum" where
  "fdiv (Fin a) (Fin b) =
     (if b = 0 then (if a = 0 then NaN else signed_inf (0 < a)) else Fin (a / b))"
| "fdiv NaN y = NaN"
| "fdiv x NaN = NaN"
| "fdiv (Fin a) PInf = Fin 0"
| "fdiv (Fin a) NInf = Fin 0"
| "fdiv PInf (Fin b) = signed_inf (0 \<le> b)"
| "fdiv NInf (Fin b) = signed_inf (b < 0)"
| "fdiv x y = NaN"

fun fabs :: "fnum \<Rightarrow> fnum" where
  "fabs (Fin a) = Fin \<bar>a\<bar>"
| "fabs PInf = PInf"
| "fabs NInf = PInf"
| "fabs NaN = NaN"

fun fsqrt :: "fnum \<Rightarrow> fnum" where
  "fsqrt (Fin a) = (if a < 0 then NaN else Fin (sqrt a))"
| "fsqrt PInf = PInf"
| "fsqrt NInf = NaN"
| "fsqrt NaN = NaN"

text \<open>The comparison \<^verbatim>\<open><=\<close> of two floats; any comparison with NaN is false.\<close>

fun fle :: "fnum \<Rightarrow> fnum \<Rightarrow> bool" where
  "fle (Fin a) (Fin b) = (a \<le> b)"
| "fle NaN y = False"
| "fle x NaN = False"
| "fle NInf y = True"
| "fle x PInf = True"
| "fle x y = False"

section \<open>Label lookup and sorted search\<close>

text \<open>
  \<^verbatim>\<open>df.loc[i, col]\<close> on a frame with the default index \<open>0..n-1\<close>: the label must be
  one of the index, there is no counting from the end.
\<close>

definition loc :: "'a list \<Rightarrow> int \<Rightarrow> error + 'a" where
  "loc xs i = (if 0 \<le> i \<and> i < int (length xs) then Inr (xs ! nat i) else Inl KeyError)"

text \<open>
  \<^verbatim>\<open>Series.searchsorted(v)\<close> (side \<^verbatim>\<open>left\<close>) is numpy's binary search: it halves
  the window \<open>[lo, hi)\<close> until it is empty, whatever the order of the column.
\<close>

function binsearch_left :: "real list \<Rightarrow> real \<Rightarrow> nat \<Rightarrow> nat \<Rightarrow> nat" where
  "binsearch_left arr key lo hi =
     (if lo < hi then
        (let mid = lo + (hi - lo) div 2 in
         if arr ! mid < key then binsearch_left arr key (mid + 1) hi
         else binsearch_left arr key lo mid)
      else lo)"
  by pat_completeness auto
termination
  by (relation "measure (\<lambda>(arr, key, lo, hi). hi - lo)") auto

declare binsearch_left.simps [simp del]

definition searchsorted :: "real list \<Rightarrow> real \<Rightarrow> nat" where
  "searchsorted arr key = binsearch_left arr key 0 (length arr)"

section \<open>The option chain\<close>

text \<open>
  A pandas DataFrame is modelled column by column.  The five columns the caller must
  provide are always there; every column the calculator adds is optional, and absent
  (\<open>None\<close>) until the code assigns it.  The index is the default one, the row numbers
  \<open>0..n-1\<close>, as \<^verbatim>\<open>pd.read_csv\<close> produces it in \<^verbatim>\<open>test_toy_data.py\<close>.  The strikes are
  finite numbers; the four quotes may be missing (NaN).

  The calculator assigns columns of the caller's frame in place, so every function that
  does returns the frame it leaves behind beside its result.
\<close>

record frame =
  Strike :: "real list"
  Call_Bid :: "fnum list"
  Call_Ask :: "fnum list"
  Put_Bid :: "fnum list"
  Put_Ask :: "fnum list"
  Call_Mid :: "fnum list option"
  Put_Mid :: "fnum list option"
  Call_Spread :: "fnum list option"
  Put_Spread :: "fnum list option"
  Q :: "fnum list option"
  diff_K_upper :: "fnum list option"
  diff_K_lower :: "fnum list option"
  delta_K :: "fnum list option"
  contribution :: "fnum list option"

text \<open>All columns of a DataFrame have the length of its index.\<close>

definition col_ok :: "nat \<Rightarrow> fnum list option \<Rightarrow> bool" where
  "col_ok n c = (case c of None \<Rightarrow> True | Some xs \<Rightarrow> length xs = n)"

definition wf_frame :: "frame \<Rightarrow> bool" where
  "wf_frame df =
     (let n = length (Strike df) in
      length (Call_Bid df) = n \<and> length (Call_Ask df) = n \<and>
      length (Put_Bid df) = n \<and> length (Put_Ask df) = n \<and>
      col_ok n (Call_Mid df) \<and> col_ok n (Put_Mid df) \<and>
      col_ok n (Call_Spread df) \<and> col_ok n (Put_Spread df) \<and>
      col_ok n (Q df) \<and> col_ok n (diff_K_upper df) \<and> col_ok n (diff_K_lower df) \<and>
      col_ok n (delta_K df) \<and> col_ok n (contribution df))"

definition MINUTES_IN_A_YEAR :: int where
  "MINUTES_IN_A_YEAR = 525600"

definition MINUTES_IN_30_DAYS :: int where
  "MINUTES_IN_30_DAYS = 43200"

section \<open>The cubic spline of scipy\<close>

text \<open>
  \<^verbatim>\<open>CubicSpline(x, y, bc_type="natural", extrapolate=False)\<close> is library code.  It is
  modelled as the library documents and implements it: the input is refused with a
  \<^verbatim>\<open>ValueError\<close> unless there are at least two points, every \<open>y\<close> is finite and \<open>x\<close>
  is strictly increasing; the slopes \<open>s\<close> at the knots solve the tridiagonal system of
  the natural boundary condition (second derivative zero at both ends); on the interval
  \<open>i\<close> the spline is the cubic \<open>c0 t^3 + c1 t^2 + c2 t + c3\<close> in \<open>t = x - x[i]\<close>; and,
  extrapolation being off, a call outside \<open>[x[0], x[n-1]]\<close> gives NaN.
\<close>

type_synonym cubic = "real \<times> real \<times> real \<times> real"

record ppoly =
  ppoly_x :: "real list"
  ppoly_c :: "cubic list"

text \<open>Row \<open>i\<close> of the system: lower, diagonal and upper entry, right-hand side.\<close>

definition tridiag_rows :: "real list \<Rightarrow> real list \<Rightarrow> (real \<times> real \<times> real \<times> real) list" where
  "tridiag_rows x y =
     (let n = length x;
          dx = (\<lambda>i. x ! (i + 1) - x ! i);
          slope = (\<lambda>i. (y ! (i + 1) - y ! i) / dx i)
      in map (\<lambda>i.
           if i = 0 then (0, 2 * dx 0, dx 0, 3 * (y ! 1 - y ! 0))
           else if i = n - 1 then
             (dx (n - 2), 2 * dx (n - 2), 0, 3 * (y ! (n - 1) - y ! (n - 2)))
           else
             (dx i, 2 * (dx (i - 1) + dx i), dx (i - 1),
              3 * (dx i * slope (i - 1) + dx (i - 1) * slope i)))
         [0..<n])"

text \<open>Elimination downwards, then substitution upwards.\<close>

fun eliminate :: "real \<Rightarrow> real \<Rightarrow> (real \<times> real \<times> real \<times> real) list \<Rightarrow> (real \<times> real) list" where
  "eliminate cp dp [] = []"
| "eliminate cp dp ((a, b, c, d) # rows) =
     (let m = b - a * cp; cp' = c / m; dp' = (d - a * dp) / m
      in (cp', dp') # eliminate cp' dp' rows)"

fun substitute :: "(real \<times> real) list \<Rightarrow> real list" where
  "substitute [] = []"
| "substitute [(cp, dp)] = [dp]"
| "substitute ((cp, dp) # r # rest) =
     (let s = substitute (r # rest) in (dp - cp * hd s) # s)"

definition solve_banded :: "(real \<times> real \<times> real \<times> real) list \<Rightarrow> real list" where
  "solve_banded rows = substitute (eliminate 0 0 rows)"

definition natural_spline :: "real list \<Rightarrow> real list \<Rightarrow> ppoly" where
  "natural_spline x y =
     (let s = solve_banded (tridiag_rows x y);
          piece = (\<lambda>i.
            let dx = x ! (i + 1) - x ! i;
                slope = (y ! (i + 1) - y ! i) / dx;
                t = (s ! i + s ! (i + 1) - 2 * slope) / dx
            in (t / dx, (slope - s ! i) / dx - t, s ! i, y ! i))
      in \<lparr>ppoly_x = x, ppoly_c = map piece [0..<length x - 1]\<rparr>)"

definition CubicSpline :: "real list \<Rightarrow> fnum list \<Rightarrow> error + ppoly" where
  "CubicSpline x y =
     (if length x < 2 \<or> length y \<noteq> length x then Inl ValueError
      else if \<not> list_all is_Fin y then Inl ValueError
      else if \<not> sorted_wrt (<) x then Inl ValueError
      else Inr (natural_spline x (map the_Fin y)))"

text \<open>
  The interval of a point inside the range: the last \<open>i\<close> with \<open>x[i] \<le> v\<close>, and the last
  interval for the right end itself.
\<close>

fun find_interval :: "real list \<Rightarrow> real \<Rightarrow> nat" where
  "find_interval (a # b # c # xs) v = (if v < b then 0 else Suc (find_interval (b # c # xs) v))"
| "find_interval xs v = 0"

text \<open>
  The value of the piece that holds \<open>v\<close>, and the call with extrapolation off.  The
  value is the exact one; \<open>ppoly_eval_f64\<close> below is the value as scipy rounds it.
\<close>

definition ppoly_eval :: "ppoly \<Rightarrow> real \<Rightarrow> real" where
  "ppoly_eval p v =
     (let i = find_interval (ppoly_x p) v;
          t = v - ppoly_x p ! i
      in case ppoly_c p ! i of
           (c0, c1, c2, c3) \<Rightarrow> c0 * t ^ 3 + c1 * t ^ 2 + c2 * t + c3)"

definition ppoly_call :: "ppoly \<Rightarrow> real \<Rightarrow> fnum" where
  "ppoly_call p v =
     (if v < hd (ppoly_x p) \<or> last (ppoly_x p) < v then NaN else Fin (ppoly_eval p v))"

section \<open>The spline in float64 arithmetic\<close>

text \<open>
  The model above computes with exact reals.  For what depends on rounding, the same
  spline is modelled a second time with every operation rounded as numpy, LAPACK and the
  compiled evaluation loop of scipy round it: to the nearest float64, ties to even, one
  rounding per operation (no fused multiply-add).  Overflow and subnormal numbers are
  left out: \<open>f64\<close> rounds to 53 significant bits at any magnitude.
\<close>

fun bit_length :: "nat \<Rightarrow> nat" where
  "bit_length n = (if n = 0 then 0 else Suc (bit_length (n div 2)))"

declare bit_length.simps [simp del]

text \<open>The exponent \<open>e\<close> with \<open>2^e \<le> x < 2^(e+1)\<close>, for a positive \<open>x\<close>.\<close>

definition binade :: "real \<Rightarrow> int" where
  "binade x =
     (if 1 \<le> x then int (bit_length (nat \<lfloor>x\<rfloor>)) - 1
      else - int (bit_length (nat (\<lceil>1 / x\<rceil> - 1))))"

definition pow2 :: "int \<Rightarrow> real" where
  "pow2 e = (if 0 \<le> e then 2 ^ nat e else 1 / 2 ^ nat (- e))"

definition round_half_even :: "real \<Rightarrow> int" where
  "round_half_even m =
     (let f = \<lfloor>m\<rfloor>; r = m - real_of_int f
      in if r < 1 / 2 then f else if 1 / 2 < r then f + 1 else if even f then f else f + 1)"

definition f64 :: "real \<Rightarrow> real" where
  "f64 x =
     (if x = 0 then 0
      else (let u = pow2 (binade \<bar>x\<bar> - 52)
            in real_of_int (round_half_even (x / u)) * u))"

definition is_f64 :: "real \<Rightarrow> bool" where
  "is_f64 x = (f64 x = x)"

definition add64 :: "real \<Rightarrow> real \<Rightarrow> real" where
  "add64 a b = f64 (a + b)"

definition sub64 :: "real \<Rightarrow> real \<Rightarrow> real" where
  "sub64 a b = f64 (a - b)"

definition mul64 :: "real \<Rightarrow> real \<Rightarrow> real" where
  "mul64 a b = f64 (a * b)"

definition div64 :: "real \<Rightarrow> real \<Rightarrow> real" where
  "div64 a b = f64 (a / b)"

text \<open>
  \<^verbatim>\<open>solve_banded\<close> hands a tridiagonal system to LAPACK's \<^verbatim>\<open>dgtsv\<close>: elimination
  with partial pivoting, then back substitution.  The state is the sub-diagonal, the
  diagonal, the super-diagonal and the right-hand side.  Step \<open>i\<close> eliminates the
  sub-diagonal entry of row \<open>i + 1\<close>, after interchanging rows \<open>i\<close> and \<open>i + 1\<close> when the
  entry is larger than the pivot; \<open>inner\<close> holds for all steps but the last, which has
  no second super-diagonal to fill.  A zero pivot is reported, and scipy raises
  \<^verbatim>\<open>LinAlgError\<close>, a \<^verbatim>\<open>ValueError\<close>.
\<close>

type_synonym tridiag = "real list \<times> real list \<times> real list \<times> real list"

definition gtsv_step :: "bool \<Rightarrow> nat \<Rightarrow> tridiag \<Rightarrow> error + tridiag" where
  "gtsv_step inner i st =
     (case st of (dl, d, du, b) \<Rightarrow>
        if \<bar>dl ! i\<bar> \<le> \<bar>d ! i\<bar> then
          (if d ! i = 0 then Inl ValueError
           else
             (let fact = div64 (dl ! i) (d ! i)
              in Inr (if inner then dl[i := 0] else dl,
                      d[Suc i := sub64 (d ! Suc i) (mul64 fact (du ! i))],
                      du,
                      b[Suc i := sub64 (b ! Suc i) (mul64 fact (b ! i))])))
        else
          (let fact = div64 (d ! i) (dl ! i);
               temp = d ! Suc i
           in Inr (if inner then dl[i := du ! Suc i] else dl,
                   d[i := dl ! i, Suc i := sub64 (du ! i) (mul64 fact temp)],
                   (if inner then du[Suc i := mul64 (- fact) (du ! Suc i)] else du)[i := temp],
                   b[i := b ! Suc i, Suc i := sub64 (b ! i) (mul64 fact (b ! Suc i))])))"

fun gtsv_forward :: "nat \<Rightarrow> nat list \<Rightarrow> tridiag \<Rightarrow> error + tridiag" where
  "gtsv_forward n [] st = Inr st"
| "gtsv_forward n (i # rest) st =
     (case gtsv_step (Suc (Suc i) < n) i st of
        Inl e \<Rightarrow> Inl e
      | Inr st' \<Rightarrow> gtsv_forward n rest st')"

definition gtsv_back :: "nat \<Rightarrow> tridiag \<Rightarrow> real list" where
  "gtsv_back n st =
     (case st of (dl, d, du, b) \<Rightarrow>
        (let b1 = b[n - 1 := div64 (b ! (n - 1)) (d ! (n - 1))];
             b2 = (if 1 < n
                   then b1[n - 2 := div64 (sub64 (b1 ! (n - 2)) (mul64 (du ! (n - 2)) (b1 ! (n - 1))))
                                          (d ! (n - 2))]
                   else b1)
         in foldl (\<lambda>b i. b[i := div64 (sub64 (sub64 (b ! i) (mul64 (du ! i) (b ! (i + 1))))
                                               (mul64 (dl ! i) (b ! (i + 2))))
                                        (d ! i)])
              b2 (rev [0..<n - 2])))"

definition gtsv_f64 :: "real list \<Rightarrow> real list \<Rightarrow> real list \<Rightarrow> real list \<Rightarrow> error + real list" where
  "gtsv_f64 dl d du b =
     (let n = length d in
      case gtsv_forward n [0..<n - 1] (dl, d, du, b) of
        Inl e \<Rightarrow> Inl e
      | Inr st \<Rightarrow>
          (case st of (dl', d', du', b') \<Rightarrow>
             if d' ! (n - 1) = 0 then Inl ValueError else Inr (gtsv_back n st)))"

text \<open>
  The constructor: the knots are cast to float64 and checked as before; the differences
  and slopes, the system (sub-diagonal, diagonal, super-diagonal, right-hand side), its
  solution and the four coefficients of each piece are computed in the order of scipy's
  array expressions.  The values \<open>y\<close> are taken as they are: in the program they are
  float64 already, and a statement that needs it says so with \<open>is_f64\<close>.
\<close>

definition diffs_f64 :: "real list \<Rightarrow> real list" where
  "diffs_f64 x = map (\<lambda>i. sub64 (x ! (i + 1)) (x ! i)) [0..<length x - 1]"

definition slopes_f64 :: "real list \<Rightarrow> real list \<Rightarrow> real list" where
  "slopes_f64 dx y = map (\<lambda>i. div64 (sub64 (y ! (i + 1)) (y ! i)) (dx ! i)) [0..<length dx]"

definition natural_system_f64 :: "real list \<Rightarrow> real list \<Rightarrow> real list \<Rightarrow> tridiag" where
  "natural_system_f64 dx slope y =
     (let n = length y
      in (map (\<lambda>i. if i = n - 2 then dx ! (n - 2) else dx ! (i + 1)) [0..<n - 1],
          map (\<lambda>i. if i = 0 then mul64 2 (dx ! 0)
                    else if i = n - 1 then mul64 2 (dx ! (n - 2))
                    else mul64 2 (add64 (dx ! (i - 1)) (dx ! i))) [0..<n],
          map (\<lambda>i. if i = 0 then dx ! 0 else dx ! (i - 1)) [0..<n - 1],
          map (\<lambda>i. if i = 0 then mul64 3 (sub64 (y ! 1) (y ! 0))
                    else if i = n - 1 then mul64 3 (sub64 (y ! (n - 1)) (y ! (n - 2)))
                    else mul64 3 (add64 (mul64 (dx ! i) (slope ! (i - 1)))
                                        (mul64 (dx ! (i - 1)) (slope ! i)))) [0..<n]))"

definition pieces_f64 :: "real list \<Rightarrow> real list \<Rightarrow> real list \<Rightarrow> real list \<Rightarrow> cubic list" where
  "pieces_f64 dx slope s y =
     map (\<lambda>i.
       let t = div64 (sub64 (add64 (s ! i) (s ! (i + 1))) (mul64 2 (slope ! i))) (dx ! i)
       in (div64 t (dx ! i),
           sub64 (div64 (sub64 (slope ! i) (s ! i)) (dx ! i)) t,
           s ! i, y ! i)) [0..<length dx]"

definition CubicSpline_f64 :: "real list \<Rightarrow> fnum list \<Rightarrow> error + ppoly" where
  "CubicSpline_f64 x0 y0 =
     (let x = map f64 x0 in
      if length x < 2 \<or> length y0 \<noteq> length x then Inl ValueError
      else if \<not> list_all is_Fin y0 then Inl ValueError
      else if \<not> sorted_wrt (<) x then Inl ValueError
      else
        (let y = map the_Fin y0;
             dx = diffs_f64 x;
             slope = slopes_f64 dx y
         in case natural_system_f64 dx slope y of
              (dl, d, du, b) \<Rightarrow>
                (case gtsv_f64 dl d du b of
                   Inl e \<Rightarrow> Inl e
                 | Inr s \<Rightarrow> Inr \<lparr>ppoly_x = x, ppoly_c = pieces_f64 dx slope s y\<rparr>)))"

text \<open>
  The evaluation loop of scipy adds the terms from the constant one upwards, with the
  powers of \<open>s = v - x[i]\<close> built up by repeated multiplication, and every term
  multiplied by a factor that is 1 when no derivative is taken.
\<close>

definition ppoly_eval_f64 :: "ppoly \<Rightarrow> real \<Rightarrow> real" where
  "ppoly_eval_f64 p v =
     (let i = find_interval (ppoly_x p) v;
          s = sub64 v (ppoly_x p ! i)
      in case ppoly_c p ! i of
           (c0, c1, c2, c3) \<Rightarrow>
             (let res0 = add64 0 (mul64 (mul64 c3 1) 1);
                  z1 = mul64 1 s;
                  res1 = add64 res0 (mul64 (mul64 c2 z1) 1);
                  z2 = mul64 z1 s;
                  res2 = add64 res1 (mul64 (mul64 c1 z2) 1);
                  z3 = mul64 z2 s
              in add64 res2 (mul64 (mul64 c0 z3) 1)))"

definition ppoly_call_f64 :: "ppoly \<Rightarrow> real \<Rightarrow> fnum" where
  "ppoly_call_f64 p v0 =
     (let v = f64 v0
      in if v < hd (ppoly_x p) \<or> last (ppoly_x p) < v then NaN
         else Fin (ppoly_eval_f64 p v))"

section \<open>The correction of one strip\<close>

text \<open>
  Lines 85 to 95 and 96 to 106 of the source are the same code for the two sides.  The
  helper takes the rows of one side (their labels), the side's spread column and its mid
  column, and returns the new mid column of the whole frame: the spline through the clean
  points of the side, called at every strike, or NaN everywhere when fewer than three
  points are clean.  The threshold 0.3 is taken as the exact number 3/10.
\<close>

definition knot_points :: "nat list \<Rightarrow> fnum list \<Rightarrow> nat list" where
  "knot_points side spread = filter (\<lambda>i. fle (spread ! i) (Fin (3 / 10))) side"

definition spline_side ::
  "real list \<Rightarrow> nat list \<Rightarrow> fnum list option \<Rightarrow> fnum list option \<Rightarrow> error + fnum list" where
  "spline_side strikes side spread_col mid_col =
     (case spread_col of
        None \<Rightarrow> Inl KeyError
      | Some spread \<Rightarrow>
          (let knots = knot_points side spread in
           if 3 \<le> length knots then
             (case mid_col of
                None \<Rightarrow> Inl KeyError
              | Some mid \<Rightarrow>
                  (case CubicSpline (map (\<lambda>i. strikes ! i) knots) (map (\<lambda>i. mid ! i) knots) of
                     Inl e \<Rightarrow> Inl e
                   | Inr cs \<Rightarrow> Inr (map (ppoly_call cs) strikes)))
           else Inr (replicate (length strikes) NaN)))"

text \<open>
  Lines 80 to 83: the ATM strike is read at the label one before the insertion position of
  the futures price, and the two sides are the rows (their labels) at or above it and at
  or below it.  The put side is cut from the frame before the call mids are overwritten.
\<close>

definition call_rows :: "real list \<Rightarrow> real \<Rightarrow> nat list" where
  "call_rows strikes atm = filter (\<lambda>i. atm \<le> strikes ! i) [0..<length strikes]"

definition put_rows :: "real list \<Rightarrow> real \<Rightarrow> nat list" where
  "put_rows strikes atm = filter (\<lambda>i. strikes ! i \<le> atm) [0..<length strikes]"

definition cubic_spline_correction :: "frame \<Rightarrow> real \<Rightarrow> (error + real) \<times> frame" where
  "cubic_spline_correction df fut_price =
     (let atm_index = int (searchsorted (Strike df) fut_price) - 1 in
      case loc (Strike df) atm_index of
        Inl e \<Rightarrow> (Inl e, df)
      | Inr atm \<Rightarrow>
          (let call_df = call_rows (Strike df) atm;
               put_df = put_rows (Strike df) atm
           in case spline_side (Strike df) call_df (Call_Spread df) (Call_Mid df) of
                Inl e \<Rightarrow> (Inl e, df)
              | Inr call_mid \<Rightarrow>
                  (let df1 = df\<lparr>Call_Mid := Some call_mid\<rparr> in
                   case spline_side (Strike df1) put_df (Put_Spread df) (Put_Mid df) of
                     Inl e \<Rightarrow> (Inl e, df1)
                   | Inr put_mid \<Rightarrow> (Inr atm, df1\<lparr>Put_Mid := Some put_mid\<rparr>))))"

text \<open>
  The same two functions with the spline computed in float64: the rest of
  \<open>cubic_spline_correction\<close> compares and copies, which rounds nothing.
\<close>

definition spline_side_f64 ::
  "real list \<Rightarrow> nat list \<Rightarrow> fnum list option \<Rightarrow> fnum list option \<Rightarrow> error + fnum list" where
  "spline_side_f64 strikes side spread_col mid_col =
     (case spread_col of
        None \<Rightarrow> Inl KeyError
      | Some spread \<Rightarrow>
          (let knots = knot_points side spread in
           if 3 \<le> length knots then
             (case mid_col of
                None \<Rightarrow> Inl KeyError
              | Some mid \<Rightarrow>
                  (case CubicSpline_f64 (map (\<lambda>i. strikes ! i) knots) (map (\<lambda>i. mid ! i) knots) of
                     Inl e \<Rightarrow> Inl e
                   | Inr cs \<Rightarrow> Inr (map (ppoly_call_f64 cs) strikes)))
           else Inr (replicate (length strikes) NaN)))"

definition cubic_spline_correction_f64 :: "frame \<Rightarrow> real \<Rightarrow> (error + real) \<times> frame" where
  "cubic_spline_correction_f64 df fut_price =
     (let atm_index = int (searchsorted (Strike df) fut_price) - 1 in
      case loc (Strike df) atm_index of
        Inl e \<Rightarrow> (Inl e, df)
      | Inr atm \<Rightarrow>
          (let call_df = call_rows (Strike df) atm;
               put_df = put_rows (Strike df) atm
           in case spline_side_f64 (Strike df) call_df (Call_Spread df) (Call_Mid df) of
                Inl e \<Rightarrow> (Inl e, df)
              | Inr call_mid \<Rightarrow>
                  (let df1 = df\<lparr>Call_Mid := Some call_mid\<rparr> in
                   case spline_side_f64 (Strike df1) put_df (Put_Spread df) (Put_Mid df) of
                     Inl e \<Rightarrow> (Inl e, df1)
                   | Inr put_mid \<Rightarrow> (Inr atm, df1\<lparr>Put_Mid := Some put_mid\<rparr>))))"

section \<open>The variance of one expiry\<close>

text \<open>Lines 49 to 52: the mid prices and the relative spreads of both sides.\<close>

definition mids_and_spreads :: "frame \<Rightarrow> frame" where
  "mids_and_spreads df =
     (let call_mid = map (\<lambda>s. fdiv s (Fin 2)) (map2 fadd (Call_Ask df) (Call_Bid df));
          put_mid = map (\<lambda>s. fdiv s (Fin 2)) (map2 fadd (Put_Ask df) (Put_Bid df));
          call_spread = map2 fdiv (map2 fsub (Call_Ask df) (Call_Bid df)) call_mid;
          put_spread = map2 fdiv (map2 fsub (Put_Ask df) (Put_Bid df)) put_mid
      in df\<lparr>Call_Mid := Some call_mid, Put_Mid := Some put_mid,
            Call_Spread := Some call_spread, Put_Spread := Some put_spread\<rparr>)"

text \<open>Lines 55 to 63: the nested \<^verbatim>\<open>np.where\<close>, for one row.\<close>

definition Q_where :: "real \<Rightarrow> real \<Rightarrow> fnum \<Rightarrow> fnum \<Rightarrow> fnum" where
  "Q_where atm k put_mid call_mid =
     (if k < atm then put_mid
      else if atm < k then call_mid
      else fdiv (fadd put_mid call_mid) (Fin 2))"

text \<open>
  \<^verbatim>\<open>Series.diff()\<close> is the difference to the previous row, NaN in the first row;
  \<^verbatim>\<open>Series.diff(-1)\<close> is the difference to the next row, NaN in the last row.
\<close>

definition diff_prev :: "real list \<Rightarrow> fnum list" where
  "diff_prev xs = (case xs of [] \<Rightarrow> [] | x # ys \<Rightarrow> NaN # map2 (\<lambda>a b. Fin (b - a)) xs ys)"

definition diff_next :: "real list \<Rightarrow> fnum list" where
  "diff_next xs = (case xs of [] \<Rightarrow> [] | x # ys \<Rightarrow> map2 (\<lambda>a b. Fin (a - b)) xs ys @ [NaN])"

text \<open>
  Lines 64 to 68: the three spacing columns, then the first and the last row of
  \<^verbatim>\<open>delta_K\<close> overwritten.  The result is the final \<^verbatim>\<open>delta_K\<close> column.
\<close>

definition strike_spacing :: "frame \<Rightarrow> (error + fnum list) \<times> frame" where
  "strike_spacing df =
     (let upper = map fabs (diff_prev (Strike df));
          lower = map fabs (diff_next (Strike df));
          dk = map2 (\<lambda>l u. fdiv (fadd l u) (Fin 2)) lower upper;
          df1 = df\<lparr>diff_K_upper := Some upper, diff_K_lower := Some lower, delta_K := Some dk\<rparr>;
          last_label = int (length (Strike df)) - 1
      in case loc lower 0 of
           Inl e \<Rightarrow> (Inl e, df1)
         | Inr l0 \<Rightarrow>
             (let dk1 = dk[0 := l0];
                  df2 = df1\<lparr>delta_K := Some dk1\<rparr>
              in case loc upper last_label of
                   Inl e \<Rightarrow> (Inl e, df2)
                 | Inr u \<Rightarrow>
                     (let dk2 = dk1[nat last_label := u]
                      in (Inr dk2, df2\<lparr>delta_K := Some dk2\<rparr>))))"

text \<open>\<^verbatim>\<open>Series.sum()\<close> skips NaN entries (\<^verbatim>\<open>skipna=True\<close> is the default).\<close>

definition nansum :: "fnum list \<Rightarrow> fnum" where
  "nansum xs = foldl fadd (Fin 0) (filter (\<lambda>x. x \<noteq> NaN) xs)"

text \<open>Line 71, for one row.\<close>

definition contribution_row :: "real \<Rightarrow> real \<Rightarrow> fnum \<Rightarrow> real \<Rightarrow> fnum \<Rightarrow> fnum" where
  "contribution_row ir T d k q = fmul (fmul (fdiv d (Fin (k * k))) (Fin (exp (ir * T)))) q"

text \<open>
  Lines 48 to 74.  Every assignment \<^verbatim>\<open>df[...] = ...\<close> updates the frame; an exception
  leaves it as it is at that moment.
\<close>

definition compute_sigma :: "frame \<Rightarrow> int \<Rightarrow> real \<Rightarrow> real \<Rightarrow> (error + fnum) \<times> frame" where
  "compute_sigma df0 mte fut ir =
     (case cubic_spline_correction (mids_and_spreads df0) fut of
        (Inl e, df1) \<Rightarrow> (Inl e, df1)
      | (Inr atm, df1) \<Rightarrow>
          (case (Put_Mid df1, Call_Mid df1) of
             (Some put_mid, Some call_mid) \<Rightarrow>
               (let q = map (\<lambda>(k, p, c). Q_where atm k p c)
                          (zip (Strike df1) (zip put_mid call_mid));
                    df2 = df1\<lparr>Q := Some q\<rparr>
                in case strike_spacing df2 of
                     (Inl e, df3) \<Rightarrow> (Inl e, df3)
                   | (Inr dk, df3) \<Rightarrow>
                       (let T = real_of_int mte / real_of_int MINUTES_IN_A_YEAR;
                            contrib = map (\<lambda>(d, k, qi). contribution_row ir T d k qi)
                                        (zip dk (zip (Strike df3) q));
                            root = fsub (fdiv (Fin fut) (Fin atm)) (Fin 1);
                            sigma = fdiv (fsub (fmul (Fin 2) (nansum contrib)) (fmul root root))
                                      (Fin T)
                        in (Inr sigma, df3\<lparr>contribution := Some contrib\<rparr>)))
           | _ \<Rightarrow> (Inl KeyError, df1)))"

section \<open>The blend of the two expiries\<close>

record vix_data =
  option_chain_1 :: frame
  mte_1 :: int
  option_chain_2 :: frame
  mte_2 :: int
  fut_1 :: real
  fut_2 :: real
  ir_1 :: real
  ir_2 :: real

text \<open>Python's \<^verbatim>\<open>/\<close> on two integers: a float, or \<^verbatim>\<open>ZeroDivisionError\<close>.\<close>

definition py_div :: "int \<Rightarrow> int \<Rightarrow> error + real" where
  "py_div a b = (if b = 0 then Inl ZeroDivisionError else Inr (real_of_int a / real_of_int b))"

text \<open>The two blend weights of lines 40 and 41.\<close>

definition weight_1 :: "int \<Rightarrow> int \<Rightarrow> error + real" where
  "weight_1 m1 m2 = py_div (m2 - MINUTES_IN_30_DAYS) (m2 - m1)"

definition weight_2 :: "int \<Rightarrow> int \<Rightarrow> error + real" where
  "weight_2 m1 m2 = py_div (MINUTES_IN_30_DAYS - m1) (m2 - m1)"

text \<open>
  Lines 29 to 45.  The result comes with the two frames as the call leaves them:
  \<^verbatim>\<open>df_1\<close> and \<^verbatim>\<open>df_2\<close> are the caller's own tables, not copies.  They are
  taken to be two different tables.  The weights are Python divisions of integers, so
  equal expiries raise; everything else is numpy arithmetic, where a negative radicand
  gives NaN and raises nothing.
\<close>

definition vix_calculator :: "vix_data \<Rightarrow> (error + fnum) \<times> frame \<times> frame" where
  "vix_calculator data =
     (let df_1 = option_chain_1 data;
          df_2 = option_chain_2 data
      in case compute_sigma df_1 (mte_1 data) (fut_1 data) (ir_1 data) of
           (Inl e, df_1') \<Rightarrow> (Inl e, df_1', df_2)
         | (Inr sigma_1, df_1') \<Rightarrow>
             (case compute_sigma df_2 (mte_2 data) (fut_2 data) (ir_2 data) of
                (Inl e, df_2') \<Rightarrow> (Inl e, df_1', df_2')
              | (Inr sigma_2, df_2') \<Rightarrow>
                  (let T_1 = real_of_int (mte_1 data) / real_of_int MINUTES_IN_A_YEAR;
                       T_2 = real_of_int (mte_2 data) / real_of_int MINUTES_IN_A_YEAR
                   in case weight_1 (mte_1 data) (mte_2 data) of
                        Inl e \<Rightarrow> (Inl e, df_1', df_2')
                      | Inr w1 \<Rightarrow>
                          (case weight_2 (mte_1 data) (mte_2 data) of
                             Inl e \<Rightarrow> (Inl e, df_1', df_2')
                           | Inr w2 \<Rightarrow>
                               (let sigma = fsqrt (fmul
                                      (Fin (real_of_int MINUTES_IN_A_YEAR / real_of_int MINUTES_IN_30_DAYS))
                                      (fadd (fmul (fmul (Fin T_1) sigma_1) (Fin w1))
                                            (fmul (fmul (Fin T_2) sigma_2) (Fin w2))));
                                    vix = fmul (Fin 100) sigma
                                in (Inr vix, df_1', df_2'))))))"

section \<open>Notions used in the statements\<close>

text \<open>
  The strike spacing as the specification words it (section 4.2, step 3): the mean of the
  distances to the two neighbours, the distance to the only neighbour in the first and in
  the last row.  It is compared below with the column that the code computes.
\<close>

definition delta_K_spec :: "real list \<Rightarrow> nat \<Rightarrow> real" where
  "delta_K_spec K i =
     (if i = 0 then K ! 1 - K ! 0
      else if i = length K - 1 then K ! i - K ! (i - 1)
      else (\<bar>K ! i - K ! (i - 1)\<bar> + \<bar>K ! (i + 1) - K ! i\<bar>) / 2)"

text \<open>
  Two frames with the same five input columns, and a frame in which every column that
  \<open>compute_sigma\<close> assigns is there.
\<close>

definition same_inputs :: "frame \<Rightarrow> frame \<Rightarrow> bool" where
  "same_inputs a b =
     (Strike a = Strike b \<and> Call_Bid a = Call_Bid b \<and> Call_Ask a = Call_Ask b \<and>
      Put_Bid a = Put_Bid b \<and> Put_Ask a = Put_Ask b)"

definition derived_assigned :: "frame \<Rightarrow> bool" where
  "derived_assigned df =
     (Call_Mid df \<noteq> None \<and> Put_Mid df \<noteq> None \<and> Call_Spread df \<noteq> None \<and>
      Put_Spread df \<noteq> None \<and> Q df \<noteq> None \<and> diff_K_upper df \<noteq> None \<and>
      diff_K_lower df \<noteq> None \<and> delta_K df \<noteq> None \<and> contribution df \<noteq> None)"

section \<open>Example inputs\<close>

text \<open>
  The frame a caller hands over, as \<^verbatim>\<open>pd.read_csv\<close> builds it from the five required
  columns: no derived column yet.
\<close>

definition option_chain ::
  "real list \<Rightarrow> fnum list \<Rightarrow> fnum list \<Rightarrow> fnum list \<Rightarrow> fnum list \<Rightarrow> frame" where
  "option_chain strikes call_bid call_ask put_bid put_ask =
     \<lparr>Strike = strikes, Call_Bid = call_bid, Call_Ask = call_ask,
      Put_Bid = put_bid, Put_Ask = put_ask,
      Call_Mid = None, Put_Mid = None, Call_Spread = None, Put_Spread = None,
      Q = None, diff_K_upper = None, diff_K_lower = None, delta_K = None,
      contribution = None\<rparr>"

text \<open>
  Two small strips of five strikes with tight quotes on every row, and the record of a
  whole call in the shape of \<^verbatim>\<open>test_toy_data.py\<close> (the interest rates are zero, so
  that the result is a closed number).
\<close>

definition near_chain :: frame where
  "near_chain = option_chain [100, 110, 120, 130, 140]
     [Fin 25, Fin 16, Fin 8, Fin (7 / 2), Fin (7 / 4)]
     [Fin 27, Fin 18, Fin 10, Fin (9 / 2), Fin (9 / 4)]
     [Fin (9 / 10), Fin (11 / 4), Fin (11 / 2), Fin 10, Fin 18]
     [Fin (11 / 10), Fin (13 / 4), Fin (13 / 2), Fin 12, Fin 20]"

definition next_chain :: frame where
  "next_chain = option_chain [100, 110, 120, 130, 140]
     [Fin 27, Fin 18, Fin 10, Fin (11 / 2), Fin (11 / 4)]
     [Fin 29, Fin 20, Fin 12, Fin (13 / 2), Fin (13 / 4)]
     [Fin (7 / 4), Fin (7 / 2), Fin 7, Fin 12, Fin 20]
     [Fin (9 / 4), Fin (9 / 2), Fin 9, Fin 14, Fin 22]"

text \<open>
  A strip of six strikes whose last call quote is too wide to be a clean point, and a
  strip of four strikes with only two rows on the call side.
\<close>

definition wide_chain :: frame where
  "wide_chain = option_chain [100, 110, 120, 130, 140, 150]
     [Fin 25, Fin 16, Fin 8, Fin (7 / 2), Fin (7 / 4), Fin (1 / 2)]
     [Fin 27, Fin 18, Fin 10, Fin (9 / 2), Fin (9 / 4), Fin (3 / 2)]
     [Fin (9 / 10), Fin (11 / 4), Fin (11 / 2), Fin 10, Fin 18, Fin 27]
     [Fin (11 / 10), Fin (13 / 4), Fin (13 / 2), Fin 12, Fin 20, Fin 29]"

definition thin_chain :: frame where
  "thin_chain = option_chain [100, 110, 120, 130]
     [Fin 25, Fin 16, Fin 8, Fin (7 / 2)]
     [Fin 27, Fin 18, Fin 10, Fin (9 / 2)]
     [Fin (9 / 10), Fin (11 / 4), Fin (11 / 2), Fin 10]
     [Fin (11 / 10), Fin (13 / 4), Fin (13 / 2), Fin 12]"

text \<open>The quotes of \<open>near_chain\<close> on an uneven strike grid.\<close>

definition uneven_chain :: frame where
  "uneven_chain = option_chain [100, 105, 120, 130, 150]
     [Fin 25, Fin 16, Fin 8, Fin (7 / 2), Fin (7 / 4)]
     [Fin 27, Fin 18, Fin 10, Fin (9 / 2), Fin (9 / 4)]
     [Fin (9 / 10), Fin (11 / 4), Fin (11 / 2), Fin 10, Fin 18]
     [Fin (11 / 10), Fin (13 / 4), Fin (13 / 2), Fin 12, Fin 20]"

definition toy_data :: vix_data where
  "toy_data = \<lparr>option_chain_1 = near_chain, mte_1 = 12960,
                option_chain_2 = next_chain, mte_2 = 53280,
                fut_1 = 125, fut_2 = 127, ir_1 = 0, ir_2 = 0\<rparr>"

text \<open>The same two strips with both expiries beyond the 30 days.\<close>

definition late_data :: vix_data where
  "late_data = toy_data\<lparr>mte_1 := 50000, mte_2 := 60000\<rparr>"

section \<open>Properties of the sorted search\<close>

text \<open>When no entry of the window is below the key, the search ends at its left edge.\<close>

lemma binsearch_left_all_ge:
  "hi \<le> length arr \<Longrightarrow> \<forall>i<hi. key \<le> arr ! i \<Longrightarrow> binsearch_left arr key lo hi = lo"
proof (induction arr key lo hi rule: binsearch_left.induct)
  case (1 arr key lo hi)
  show ?case
  proof (cases "lo < hi")
    case True
    define mid where "mid = lo + (hi - lo) div 2"
    have m: "mid < hi" using True by (simp add: mid_def)
    have nl: "\<not> arr ! mid < key" using 1(4) m by (simp add: not_less)
    have "binsearch_left arr key lo mid = lo"
      using "1.IH"(2)[OF True mid_def nl] m 1(3,4) by simp
    then show ?thesis
      using True nl by (subst binsearch_left.simps) (simp add: mid_def Let_def)
  next
    case False
    then show ?thesis by (subst binsearch_left.simps) simp
  qed
qed

text \<open>
  On a sorted column the search splits it: everything before the result is below the
  key, everything from the result on is not.
\<close>

lemma binsearch_left_sorted:
  assumes "sorted arr" "lo \<le> hi" "hi \<le> length arr"
    and "\<forall>i<lo. arr ! i < key"
    and "\<forall>i. hi \<le> i \<and> i < length arr \<longrightarrow> key \<le> arr ! i"
  shows "lo \<le> binsearch_left arr key lo hi \<and> binsearch_left arr key lo hi \<le> hi \<and>
         (\<forall>i<binsearch_left arr key lo hi. arr ! i < key) \<and>
         (\<forall>i. binsearch_left arr key lo hi \<le> i \<and> i < length arr \<longrightarrow> key \<le> arr ! i)"
  using assms
proof (induction arr key lo hi rule: binsearch_left.induct)
  case (1 arr key lo hi)
  show ?case
  proof (cases "lo < hi")
    case False
    with 1(4) have "lo = hi" by simp
    then show ?thesis using 1(6,7) False by (subst (1 2 3 4) binsearch_left.simps) simp
  next
    case True
    define mid where "mid = lo + (hi - lo) div 2"
    have m: "lo \<le> mid" "mid < hi" using True by (simp_all add: mid_def)
    show ?thesis
    proof (cases "arr ! mid < key")
      case lt: True
      have below: "\<forall>i<mid + 1. arr ! i < key"
      proof (intro allI impI)
        fix i assume "i < mid + 1"
        then have "i \<le> mid" by simp
        then have "arr ! i \<le> arr ! mid"
          using \<open>sorted arr\<close> m 1(5) by (auto simp: sorted_iff_nth_mono)
        then show "arr ! i < key" using lt by simp
      qed
      have eq: "binsearch_left arr key lo hi = binsearch_left arr key (mid + 1) hi"
        using True lt by (subst binsearch_left.simps) (simp add: mid_def Let_def)
      have "mid + 1 \<le> hi" using m by simp
      from "1.IH"(1)[OF True mid_def lt \<open>sorted arr\<close> this 1(5) below 1(7)]
      show ?thesis unfolding eq using m by auto
    next
      case ge: False
      have above: "\<forall>i. mid \<le> i \<and> i < length arr \<longrightarrow> key \<le> arr ! i"
      proof (intro allI impI)
        fix i assume "mid \<le> i \<and> i < length arr"
        then have "arr ! mid \<le> arr ! i"
          using \<open>sorted arr\<close> by (auto simp: sorted_iff_nth_mono)
        then show "key \<le> arr ! i" using ge by simp
      qed
      have eq: "binsearch_left arr key lo hi = binsearch_left arr key lo mid"
        using True ge by (subst binsearch_left.simps) (simp add: mid_def Let_def)
      have "mid \<le> length arr" using m 1(5) by simp
      from "1.IH"(2)[OF True mid_def ge \<open>sorted arr\<close> m(1) this 1(6) above]
      show ?thesis unfolding eq using m by auto
    qed
  qed
qed

lemma searchsorted_all_ge:
  "\<forall>k\<in>set arr. key \<le> k \<Longrightarrow> searchsorted arr key = 0"
  unfolding searchsorted_def by (rule binsearch_left_all_ge) auto

lemma searchsorted_sorted:
  assumes "sorted arr"
  shows "searchsorted arr key \<le> length arr \<and>
         (\<forall>i<searchsorted arr key. arr ! i < key) \<and>
         (\<forall>i. searchsorted arr key \<le> i \<and> i < length arr \<longrightarrow> key \<le> arr ! i)"
  using binsearch_left_sorted[OF assms, of 0 "length arr" key]
  by (simp add: searchsorted_def)

lemma searchsorted_pos:
  assumes "sorted arr" and "arr \<noteq> []" and "hd arr < key"
  shows "0 < searchsorted arr key"
proof (rule ccontr)
  assume "\<not> 0 < searchsorted arr key"
  then have "searchsorted arr key = 0" by simp
  with searchsorted_sorted[OF assms(1), of key] assms(2) have "key \<le> arr ! 0" by simp
  with assms(2,3) show False by (simp add: hd_conv_nth)
qed

lemma loc_Inr_mem: "loc xs i = Inr v \<Longrightarrow> v \<in> set xs"
  by (auto simp: loc_def split: if_splits)

lemma atm_is_largest_below:
  assumes "sorted arr" and "arr \<noteq> []" and "hd arr < key"
  shows "loc arr (int (searchsorted arr key) - 1) = Inr (Max {k \<in> set arr. k < key})"
proof -
  define r where "r = searchsorted arr key"
  have r: "0 < r" "r \<le> length arr" "\<forall>i<r. arr ! i < key"
    "\<forall>i. r \<le> i \<and> i < length arr \<longrightarrow> key \<le> arr ! i"
    using searchsorted_pos[OF assms] searchsorted_sorted[OF assms(1), of key]
    by (simp_all add: r_def)
  have lk: "loc arr (int r - 1) = Inr (arr ! (r - 1))"
    using r(1,2) by (simp add: loc_def nat_diff_distrib' int_ops)
  have "Max {k \<in> set arr. k < key} = arr ! (r - 1)"
  proof (rule Max_eqI)
    show "finite {k \<in> set arr. k < key}" by simp
    show "arr ! (r - 1) \<in> {k \<in> set arr. k < key}" using r(1,2,3) by simp
    fix y assume "y \<in> {k \<in> set arr. k < key}"
    then obtain j where j: "j < length arr" "arr ! j = y" "y < key"
      by (auto simp: in_set_conv_nth)
    have "j < r" using r(4) j by (meson not_le_imp_less leD)
    then have "j \<le> r - 1" by simp
    then have "arr ! j \<le> arr ! (r - 1)"
      using assms(1) r(1,2) by (simp add: sorted_iff_nth_mono)
    then show "y \<le> arr ! (r - 1)" using j by simp
  qed
  then show ?thesis using lk by (simp add: r_def)
qed

section \<open>Properties of the mids and spreads\<close>

lemma Strike_mids_and_spreads [simp]: "Strike (mids_and_spreads df) = Strike df"
  by (simp add: mids_and_spreads_def Let_def)

lemma wf_mids_and_spreads: "wf_frame df \<Longrightarrow> wf_frame (mids_and_spreads df)"
  by (simp add: wf_frame_def mids_and_spreads_def Let_def col_ok_def)

lemma mids_and_spreads_cols:
  assumes "wf_frame df"
  shows "\<exists>cm pm cs ps. Call_Mid (mids_and_spreads df) = Some cm \<and>
           Put_Mid (mids_and_spreads df) = Some pm \<and>
           Call_Spread (mids_and_spreads df) = Some cs \<and>
           Put_Spread (mids_and_spreads df) = Some ps \<and>
           length cm = length (Strike df) \<and> length pm = length (Strike df) \<and>
           length cs = length (Strike df) \<and> length ps = length (Strike df) \<and>
           (\<forall>i<length (Strike df).
              cm ! i = fdiv (fadd (Call_Ask df ! i) (Call_Bid df ! i)) (Fin 2) \<and>
              pm ! i = fdiv (fadd (Put_Ask df ! i) (Put_Bid df ! i)) (Fin 2) \<and>
              cs ! i = fdiv (fsub (Call_Ask df ! i) (Call_Bid df ! i)) (cm ! i) \<and>
              ps ! i = fdiv (fsub (Put_Ask df ! i) (Put_Bid df ! i)) (pm ! i))"
  using assms by (simp add: wf_frame_def mids_and_spreads_def Let_def)

text \<open>A quote whose relative spread passes a comparison has a finite mid.\<close>

lemma spread_ok_mid_finite:
  "fle (fdiv (fsub a b) (fdiv (fadd a b) (Fin 2))) (Fin c) \<Longrightarrow> is_Fin (fdiv (fadd a b) (Fin 2))"
  by (cases a; cases b) (auto simp: fsub_def signed_inf_def split: if_splits)

lemma same_inputs_refl [simp]: "same_inputs df df"
  by (simp add: same_inputs_def)

lemma same_inputs_trans: "same_inputs a b \<Longrightarrow> same_inputs b c \<Longrightarrow> same_inputs a c"
  by (simp add: same_inputs_def)

lemma same_inputs_sym: "same_inputs a b \<Longrightarrow> same_inputs b a"
  by (simp add: same_inputs_def)

lemma same_inputs_mids_and_spreads: "same_inputs df (mids_and_spreads df)"
  by (simp add: same_inputs_def mids_and_spreads_def Let_def)

section \<open>Properties of the spline\<close>

lemma length_eliminate [simp]: "length (eliminate cp dp rows) = length rows"
  by (induction rows arbitrary: cp dp) (auto simp: Let_def)

lemma length_substitute [simp]: "length (substitute ps) = length ps"
  by (induction ps rule: substitute.induct) (auto simp: Let_def)

lemma length_solve_banded [simp]: "length (solve_banded rows) = length rows"
  by (simp add: solve_banded_def)

lemma length_tridiag_rows [simp]: "length (tridiag_rows x y) = length x"
  by (simp add: tridiag_rows_def Let_def)

lemma natural_spline_x [simp]: "ppoly_x (natural_spline x y) = x"
  by (simp add: natural_spline_def Let_def)

lemma length_natural_spline_c [simp]: "length (ppoly_c (natural_spline x y)) = length x - 1"
  by (simp add: natural_spline_def Let_def)

text \<open>
  Whatever the slopes are, the cubic of interval \<open>i\<close> takes the value \<open>y[i]\<close> at its left
  end and \<open>y[i+1]\<close> at its right end.
\<close>

lemma cubic_ends:
  fixes h y0 y1 s0 s1 :: real
  assumes "h \<noteq> 0"
  defines "slope \<equiv> (y1 - y0) / h"
  defines "t \<equiv> (s0 + s1 - 2 * slope) / h"
  shows "t / h * h ^ 3 + ((slope - s0) / h - t) * h ^ 2 + s0 * h + y0 = y1"
proof -
  have a: "t / h * h ^ 3 = t * h ^ 2"
    using assms(1) by (simp add: power3_eq_cube power2_eq_square)
  have "(slope - s0) / h * h ^ 2 = (slope - s0) * h"
    using assms(1) by (simp add: power2_eq_square)
  then have b: "((slope - s0) / h - t) * h ^ 2 = (slope - s0) * h - t * h ^ 2"
    by (simp add: left_diff_distrib)
  have c: "slope * h = y1 - y0" using assms(1) by (simp add: slope_def)
  have "(slope - s0) * h + s0 * h = slope * h" by (simp add: left_diff_distrib)
  then show ?thesis unfolding a b using c by simp
qed

lemma natural_spline_piece:
  assumes "Suc i < length x" and "x ! Suc i \<noteq> x ! i"
  shows "\<exists>c0 c1 c2. ppoly_c (natural_spline x y) ! i = (c0, c1, c2, y ! i) \<and>
           c0 * (x ! Suc i - x ! i) ^ 3 + c1 * (x ! Suc i - x ! i) ^ 2
             + c2 * (x ! Suc i - x ! i) + y ! i = y ! Suc i"
proof -
  define h where "h = x ! Suc i - x ! i"
  define s where "s = solve_banded (tridiag_rows x y)"
  define slope where "slope = (y ! Suc i - y ! i) / h"
  define t where "t = (s ! i + s ! Suc i - 2 * slope) / h"
  have h: "h \<noteq> 0" using assms(2) by (simp add: h_def)
  have i: "i < length x - 1" using assms(1) by simp
  have piece: "ppoly_c (natural_spline x y) ! i = (t / h, (slope - s ! i) / h - t, s ! i, y ! i)"
    using i by (simp add: natural_spline_def Let_def h_def s_def slope_def t_def del: upt_Suc)
  have "t / h * h ^ 3 + ((slope - s ! i) / h - t) * h ^ 2 + s ! i * h + y ! i = y ! Suc i"
    unfolding t_def slope_def by (rule cubic_ends[OF h])
  then show ?thesis using piece unfolding h_def by blast
qed

text \<open>The interval search returns the interval that holds the point.\<close>

lemma find_interval_between:
  "sorted_wrt (<) xs \<Longrightarrow> Suc j < length xs \<Longrightarrow> xs ! j \<le> v \<Longrightarrow> v < xs ! Suc j
     \<Longrightarrow> find_interval xs v = j"
proof (induction j arbitrary: xs)
  case 0
  then obtain a b rest where xs: "xs = a # b # rest"
    by (cases xs; cases "tl xs") auto
  show ?case using 0 xs by (cases rest) auto
next
  case (Suc j)
  then obtain a b c rest where xs: "xs = a # b # c # rest"
    by (cases xs; cases "tl xs"; cases "tl (tl xs)") auto
  have "sorted_wrt (<) (b # c # rest)" using Suc.prems(1) xs by simp
  then have "sorted (b # c # rest)" by (rule strict_sorted_imp_sorted)
  then have "(b # c # rest) ! 0 \<le> (b # c # rest) ! j"
    using Suc.prems(2) xs by (intro sorted_nth_mono) simp_all
  then have "b \<le> (b # c # rest) ! j" by simp
  then have nb: "\<not> v < b" using Suc.prems(3) xs by simp
  have "find_interval (b # c # rest) v = j"
    using Suc.IH[of "b # c # rest"] Suc.prems xs by simp
  then show ?case using nb xs by simp
qed

lemma find_interval_from_last:
  "sorted_wrt (<) xs \<Longrightarrow> 2 \<le> length xs \<Longrightarrow> last xs \<le> v \<Longrightarrow> find_interval xs v = length xs - 2"
proof (induction xs v rule: find_interval.induct)
  case (1 a b c xs v)
  have "b < last (b # c # xs)" using 1(2) by (auto simp: last_conv_nth nth_Cons')
  then show ?case using 1 by simp
qed simp_all

lemma find_interval_in_range: "find_interval xs v \<le> length xs - 2"
  by (induction xs v rule: find_interval.induct) simp_all

lemma CubicSpline_Inr:
  assumes "CubicSpline x y = Inr p"
  shows "2 \<le> length x" and "length y = length x" and "list_all is_Fin y"
    and "sorted_wrt (<) x" and "p = natural_spline x (map the_Fin y)"
  using assms by (auto simp: CubicSpline_def split: if_splits)

lemma strict_sorted_hd_Min:
  assumes "sorted_wrt (<) (xs :: real list)" and "xs \<noteq> []"
  shows "hd xs = Min (set xs)" and "last xs = Max (set xs)"
proof -
  have s: "sorted xs" using assms(1) by (rule strict_sorted_imp_sorted)
  show "hd xs = Min (set xs)"
  proof (rule Min_eqI[symmetric])
    fix y assume "y \<in> set xs"
    then obtain j where "j < length xs" "xs ! j = y" by (auto simp: in_set_conv_nth)
    then show "hd xs \<le> y" using sorted_nth_mono[OF s, of 0 j] assms(2) by (simp add: hd_conv_nth)
  qed (use assms(2) in auto)
  show "last xs = Max (set xs)"
  proof (rule Max_eqI[symmetric])
    fix y assume "y \<in> set xs"
    then obtain j where "j < length xs" "xs ! j = y" by (auto simp: in_set_conv_nth)
    then show "y \<le> last xs"
      using sorted_nth_mono[OF s, of j "length xs - 1"] assms(2) by (simp add: last_conv_nth)
  qed (use assms(2) in auto)
qed

text \<open>The spline passes through each of its knots.\<close>

lemma ppoly_call_knot:
  assumes "CubicSpline x y = Inr p" and "j < length x"
  shows "ppoly_call p (x ! j) = y ! j"
proof -
  note c = CubicSpline_Inr[OF assms(1)]
  define yr where "yr = map the_Fin y"
  have s: "sorted x" using c(4) by (rule strict_sorted_imp_sorted)
  have ne: "x \<noteq> []" using c(1) by auto
  have yj: "Fin (yr ! k) = y ! k" if "k < length x" for k
  proof -
    have "is_Fin (y ! k)" using c(2,3) that by (simp add: list_all_length)
    then show ?thesis using that c(2) by (cases "y ! k") (simp_all add: yr_def)
  qed
  have lo: "hd x \<le> x ! j" using sorted_nth_mono[OF s, of 0 j] assms(2) ne by (simp add: hd_conv_nth)
  have hi: "x ! j \<le> last x"
    using sorted_nth_mono[OF s, of j "length x - 1"] assms(2) ne by (simp add: last_conv_nth)
  have inside: "\<not> (x ! j < hd x \<or> last x < x ! j)" using lo hi by simp
  show ?thesis
  proof (cases "Suc j < length x")
    case True
    have d: "x ! Suc j \<noteq> x ! j" using sorted_wrt_nth_less[OF c(4), of j "Suc j"] True by simp
    have fi: "find_interval x (x ! j) = j"
      using sorted_wrt_nth_less[OF c(4), of j "Suc j"] True
      by (intro find_interval_between[OF c(4) True]) simp_all
    obtain c0 c1 c2 where "ppoly_c (natural_spline x yr) ! j = (c0, c1, c2, yr ! j)"
      using natural_spline_piece[OF True d, of yr] by blast
    then show ?thesis
      using inside fi yj[OF assms(2)] by (simp add: ppoly_call_def ppoly_eval_def c(5) yr_def[symmetric] Let_def)
  next
    case False
    then have j: "j = length x - 1" using assms(2) by simp
    define i where "i = length x - 2"
    have i: "Suc i < length x" "Suc i = j" using c(1) j by (simp_all add: i_def)
    have d: "x ! Suc i \<noteq> x ! i" using sorted_wrt_nth_less[OF c(4), of i "Suc i"] i by simp
    have xl: "x ! j = last x" using j ne by (simp add: last_conv_nth)
    have fi: "find_interval x (x ! j) = i"
      using find_interval_from_last[OF c(4) c(1), of "x ! j"] xl by (simp add: i_def)
    obtain c0 c1 c2 where p: "ppoly_c (natural_spline x yr) ! i = (c0, c1, c2, yr ! i)"
      "c0 * (x ! Suc i - x ! i) ^ 3 + c1 * (x ! Suc i - x ! i) ^ 2
         + c2 * (x ! Suc i - x ! i) + yr ! i = yr ! Suc i"
      using natural_spline_piece[OF i(1) d, of yr] by blast
    show ?thesis
      using inside fi p yj[OF assms(2)] i(2)
      by (simp add: ppoly_call_def ppoly_eval_def c(5) yr_def[symmetric] Let_def)
  qed
qed

text \<open>Outside the knots the call is NaN, between them it is a finite number.\<close>

lemma ppoly_call_outside:
  assumes "CubicSpline x y = Inr p" and "v < Min (set x) \<or> Max (set x) < v"
  shows "ppoly_call p v = NaN"
proof -
  note c = CubicSpline_Inr[OF assms(1)]
  have ne: "x \<noteq> []" using c(1) by auto
  show ?thesis
    using assms(2) strict_sorted_hd_Min[OF c(4) ne]
    by (simp add: ppoly_call_def c(5))
qed

lemma ppoly_call_inside:
  assumes "CubicSpline x y = Inr p" and "Min (set x) \<le> v" and "v \<le> Max (set x)"
  shows "ppoly_call p v = Fin (ppoly_eval p v)"
proof -
  note c = CubicSpline_Inr[OF assms(1)]
  have ne: "x \<noteq> []" using c(1) by auto
  show ?thesis
    using assms(2,3) strict_sorted_hd_Min[OF c(4) ne]
    by (simp add: ppoly_call_def c(5))
qed

section \<open>One side of the correction\<close>

lemma knot_points_sorted:
  "sorted_wrt (<) side \<Longrightarrow> sorted_wrt (<) (knot_points side spread)"
  by (simp add: knot_points_def sorted_wrt_filter)

lemma call_rows_sorted: "sorted_wrt (<) (call_rows strikes atm)"
  by (simp add: call_rows_def sorted_wrt_filter)

lemma put_rows_sorted: "sorted_wrt (<) (put_rows strikes atm)"
  by (simp add: put_rows_def sorted_wrt_filter)

lemma call_rows_bound: "i \<in> set (call_rows strikes atm) \<Longrightarrow> i < length strikes"
  by (simp add: call_rows_def)

lemma put_rows_bound: "i \<in> set (put_rows strikes atm) \<Longrightarrow> i < length strikes"
  by (simp add: put_rows_def)

lemma knot_points_subset: "set (knot_points side spread) \<subseteq> set side"
  by (auto simp: knot_points_def)

text \<open>Rows taken in order from a strictly increasing strike column are strictly increasing.\<close>

lemma knot_strikes_increasing:
  assumes "sorted_wrt (<) strikes" and "sorted_wrt (<) rows" and "\<forall>i\<in>set rows. i < length strikes"
  shows "sorted_wrt (<) (map (\<lambda>i. strikes ! i) rows)"
proof -
  have "sorted_wrt (\<lambda>i j. strikes ! i < strikes ! j) rows"
  proof (rule sorted_wrt_mono_rel[OF _ assms(2)])
    fix i j assume "i \<in> set rows" "j \<in> set rows" "i < j"
    then show "strikes ! i < strikes ! j"
      using assms(1,3) by (simp add: sorted_wrt_nth_less)
  qed
  then show ?thesis by (simp add: sorted_wrt_map)
qed

lemma spline_side_Inr:
  assumes "spline_side strikes side spread_col mid_col = Inr col"
  shows "\<exists>spread. spread_col = Some spread \<and>
           (if 3 \<le> length (knot_points side spread)
            then \<exists>mid cs. mid_col = Some mid \<and>
                   CubicSpline (map (\<lambda>i. strikes ! i) (knot_points side spread))
                               (map (\<lambda>i. mid ! i) (knot_points side spread)) = Inr cs \<and>
                   col = map (ppoly_call cs) strikes
            else col = replicate (length strikes) NaN)"
  using assms
  by (auto simp: spline_side_def Let_def split: option.splits sum.splits if_splits)

lemma length_spline_side:
  "spline_side strikes side spread_col mid_col = Inr col \<Longrightarrow> length col = length strikes"
  by (auto dest!: spline_side_Inr split: if_splits)

lemma spline_side_total:
  assumes "sorted_wrt (<) strikes" and "sorted_wrt (<) side"
    and "\<forall>i\<in>set side. i < length strikes"
    and "\<forall>i<length strikes. fle (spread ! i) (Fin (3 / 10)) \<longrightarrow> is_Fin (mid ! i)"
  shows "\<exists>col. spline_side strikes side (Some spread) (Some mid) = Inr col"
proof (cases "3 \<le> length (knot_points side spread)")
  case False
  then show ?thesis by (simp add: spline_side_def)
next
  case True
  let ?k = "knot_points side spread"
  have b: "\<forall>i\<in>set ?k. i < length strikes" using knot_points_subset assms(3) by blast
  have inc: "sorted_wrt (<) (map (\<lambda>i. strikes ! i) ?k)"
    by (rule knot_strikes_increasing[OF assms(1) knot_points_sorted[OF assms(2)] b])
  have fin: "list_all is_Fin (map (\<lambda>i. mid ! i) ?k)"
    using assms(4) b by (auto simp: list_all_iff knot_points_def)
  have "CubicSpline (map (\<lambda>i. strikes ! i) ?k) (map (\<lambda>i. mid ! i) ?k)
          = Inr (natural_spline (map (\<lambda>i. strikes ! i) ?k) (map the_Fin (map (\<lambda>i. mid ! i) ?k)))"
    using True inc fin by (simp add: CubicSpline_def)
  then show ?thesis using True by (simp add: spline_side_def Let_def)
qed

lemma spline_side_range:
  assumes "spline_side strikes side (Some spread) mid_col = Inr col"
    and "3 \<le> length (knot_points side spread)"
  shows "\<exists>mid cs. mid_col = Some mid \<and>
           CubicSpline (map (\<lambda>i. strikes ! i) (knot_points side spread))
                       (map (\<lambda>i. mid ! i) (knot_points side spread)) = Inr cs \<and>
           length col = length strikes \<and>
           (\<forall>i<length strikes. col ! i =
              (if strikes ! i < Min (set (map (\<lambda>i. strikes ! i) (knot_points side spread))) \<or>
                  Max (set (map (\<lambda>i. strikes ! i) (knot_points side spread))) < strikes ! i
               then NaN else Fin (ppoly_eval cs (strikes ! i))))"
proof -
  let ?x = "map (\<lambda>i. strikes ! i) (knot_points side spread)"
  obtain mid cs where m: "mid_col = Some mid"
    and cs: "CubicSpline ?x (map (\<lambda>i. mid ! i) (knot_points side spread)) = Inr cs"
    and col: "col = map (ppoly_call cs) strikes"
    using spline_side_Inr[OF assms(1)] assms(2) by auto
  have "col ! i = (if strikes ! i < Min (set ?x) \<or> Max (set ?x) < strikes ! i
                   then NaN else Fin (ppoly_eval cs (strikes ! i)))" if "i < length strikes" for i
  proof (cases "strikes ! i < Min (set ?x) \<or> Max (set ?x) < strikes ! i")
    case True
    then show ?thesis using ppoly_call_outside[OF cs True] that col by simp
  next
    case False
    then have "Min (set ?x) \<le> strikes ! i" "strikes ! i \<le> Max (set ?x)" by simp_all
    from ppoly_call_inside[OF cs this] show ?thesis using False that col by simp
  qed
  then show ?thesis using m cs col by auto
qed

lemma spline_side_knot:
  assumes "spline_side strikes side (Some spread) mid_col = Inr col"
    and "3 \<le> length (knot_points side spread)"
    and "k \<in> set (knot_points side spread)"
  shows "\<exists>mid. mid_col = Some mid \<and> is_Fin (mid ! k) \<and>
           (\<forall>j<length strikes. strikes ! j = strikes ! k \<longrightarrow> col ! j = mid ! k)"
proof -
  let ?k = "knot_points side spread"
  let ?x = "map (\<lambda>i. strikes ! i) ?k"
  obtain mid cs where m: "mid_col = Some mid"
    and cs: "CubicSpline ?x (map (\<lambda>i. mid ! i) ?k) = Inr cs"
    and col: "col = map (ppoly_call cs) strikes"
    using spline_side_Inr[OF assms(1)] assms(2) by auto
  obtain n where n: "n < length ?k" "?k ! n = k"
    using assms(3) by (auto simp: in_set_conv_nth)
  have "ppoly_call cs (?x ! n) = map (\<lambda>i. mid ! i) ?k ! n"
    using n(1) by (intro ppoly_call_knot[OF cs]) simp
  then have at: "ppoly_call cs (strikes ! k) = mid ! k" using n by simp
  have "list_all is_Fin (map (\<lambda>i. mid ! i) ?k)" by (rule CubicSpline_Inr(3)[OF cs])
  then have fin: "is_Fin (mid ! k)" using assms(3) by (simp add: list_all_iff)
  show ?thesis using m fin at col by auto
qed

lemma spline_side_fin_or_nan:
  assumes "spline_side strikes side spread_col mid_col = Inr col"
  shows "\<forall>x\<in>set col. is_Fin x \<or> x = NaN"
proof -
  obtain spread where "if 3 \<le> length (knot_points side spread)
            then \<exists>mid cs. mid_col = Some mid \<and>
                   CubicSpline (map (\<lambda>i. strikes ! i) (knot_points side spread))
                               (map (\<lambda>i. mid ! i) (knot_points side spread)) = Inr cs \<and>
                   col = map (ppoly_call cs) strikes
            else col = replicate (length strikes) NaN"
    using spline_side_Inr[OF assms] by blast
  then show ?thesis by (auto simp: ppoly_call_def split: if_splits)
qed

section \<open>The correction of a strip\<close>

lemma cubic_spline_correction_KeyError:
  "searchsorted (Strike df) fut = 0 \<Longrightarrow> cubic_spline_correction df fut = (Inl KeyError, df)"
  by (simp add: cubic_spline_correction_def loc_def)

lemma cubic_spline_correction_Inr:
  assumes "cubic_spline_correction df fut = (Inr atm, df')"
  shows "\<exists>cm pm. loc (Strike df) (int (searchsorted (Strike df) fut) - 1) = Inr atm \<and>
           spline_side (Strike df) (call_rows (Strike df) atm) (Call_Spread df) (Call_Mid df) = Inr cm \<and>
           spline_side (Strike df) (put_rows (Strike df) atm) (Put_Spread df) (Put_Mid df) = Inr pm \<and>
           df' = df\<lparr>Call_Mid := Some cm, Put_Mid := Some pm\<rparr>"
  using assms
  by (auto simp: cubic_spline_correction_def Let_def split: sum.splits)

text \<open>
  Inside \<open>compute_sigma\<close>, on a strip with strictly increasing strikes whose smallest
  strike is below the futures price, the correction returns the ATM strike.
\<close>

lemma cubic_spline_correction_total:
  assumes "wf_frame df" and "sorted_wrt (<) (Strike df)" and "Strike df \<noteq> []"
    and "hd (Strike df) < fut"
  shows "\<exists>df' cm pm. cubic_spline_correction (mids_and_spreads df) fut
             = (Inr (Max {k \<in> set (Strike df). k < fut}), df') \<and>
           Call_Mid df' = Some cm \<and> Put_Mid df' = Some pm \<and>
           length cm = length (Strike df) \<and> length pm = length (Strike df) \<and>
           Strike df' = Strike df"
proof -
  let ?m = "mids_and_spreads df"
  let ?atm = "Max {k \<in> set (Strike df). k < fut}"
  obtain cm0 pm0 cs ps where cols:
    "Call_Mid ?m = Some cm0" "Put_Mid ?m = Some pm0"
    "Call_Spread ?m = Some cs" "Put_Spread ?m = Some ps"
    "\<forall>i<length (Strike df).
        cm0 ! i = fdiv (fadd (Call_Ask df ! i) (Call_Bid df ! i)) (Fin 2) \<and>
        pm0 ! i = fdiv (fadd (Put_Ask df ! i) (Put_Bid df ! i)) (Fin 2) \<and>
        cs ! i = fdiv (fsub (Call_Ask df ! i) (Call_Bid df ! i)) (cm0 ! i) \<and>
        ps ! i = fdiv (fsub (Put_Ask df ! i) (Put_Bid df ! i)) (pm0 ! i)"
    using mids_and_spreads_cols[OF assms(1)] by blast
  have atm: "loc (Strike df) (int (searchsorted (Strike df) fut) - 1) = Inr ?atm"
    by (rule atm_is_largest_below[OF strict_sorted_imp_sorted[OF assms(2)] assms(3,4)])
  have cfin: "\<forall>i<length (Strike df). fle (cs ! i) (Fin (3 / 10)) \<longrightarrow> is_Fin (cm0 ! i)"
    using cols(5) spread_ok_mid_finite by metis
  have pfin: "\<forall>i<length (Strike df). fle (ps ! i) (Fin (3 / 10)) \<longrightarrow> is_Fin (pm0 ! i)"
    using cols(5) spread_ok_mid_finite by metis
  obtain cm where cm: "spline_side (Strike df) (call_rows (Strike df) ?atm) (Some cs) (Some cm0) = Inr cm"
    using spline_side_total[OF assms(2) call_rows_sorted _ cfin] call_rows_bound by blast
  obtain pm where pm: "spline_side (Strike df) (put_rows (Strike df) ?atm) (Some ps) (Some pm0) = Inr pm"
    using spline_side_total[OF assms(2) put_rows_sorted _ pfin] put_rows_bound by blast
  have "cubic_spline_correction ?m fut = (Inr ?atm, ?m\<lparr>Call_Mid := Some cm, Put_Mid := Some pm\<rparr>)"
    using atm cm pm cols(1-4) by (simp add: cubic_spline_correction_def Let_def)
  then show ?thesis
    using length_spline_side[OF cm] length_spline_side[OF pm] by simp
qed

lemma cubic_spline_correction_reads:
  assumes "Strike a = Strike b" and "Call_Spread a = Call_Spread b"
    and "Call_Mid a = Call_Mid b" and "Put_Spread a = Put_Spread b" and "Put_Mid a = Put_Mid b"
  shows "fst (cubic_spline_correction a fut) = fst (cubic_spline_correction b fut) \<and>
         Call_Mid (snd (cubic_spline_correction a fut)) = Call_Mid (snd (cubic_spline_correction b fut)) \<and>
         Put_Mid (snd (cubic_spline_correction a fut)) = Put_Mid (snd (cubic_spline_correction b fut))"
  using assms by (simp add: cubic_spline_correction_def Let_def split: sum.splits)

lemma cubic_spline_correction_writes:
  "\<exists>cm pm. snd (cubic_spline_correction df fut) = df\<lparr>Call_Mid := cm, Put_Mid := pm\<rparr>"
proof -
  have a: "df = df\<lparr>Call_Mid := Call_Mid df, Put_Mid := Put_Mid df\<rparr>" by simp
  have b: "df\<lparr>Call_Mid := Some c\<rparr> = df\<lparr>Call_Mid := Some c, Put_Mid := Put_Mid df\<rparr>" for c
    by simp
  show ?thesis
    unfolding cubic_spline_correction_def Let_def
    by (auto split: sum.splits intro: a b)
qed

lemma same_inputs_correction: "same_inputs df (snd (cubic_spline_correction df fut))"
proof -
  obtain cm pm where "snd (cubic_spline_correction df fut) = df\<lparr>Call_Mid := cm, Put_Mid := pm\<rparr>"
    using cubic_spline_correction_writes by blast
  then show ?thesis by (simp add: same_inputs_def)
qed

lemma Strike_correction [simp]: "Strike (snd (cubic_spline_correction df fut)) = Strike df"
  using same_inputs_correction[of df fut] by (simp add: same_inputs_def)

section \<open>Properties of the float64 spline\<close>

lemma f64_zero [simp]: "f64 0 = 0"
  by (simp add: f64_def)

lemma length_diffs_f64 [simp]: "length (diffs_f64 x) = length x - 1"
  by (simp add: diffs_f64_def)

lemma length_pieces_f64 [simp]: "length (pieces_f64 dx slope s y) = length dx"
  by (simp add: pieces_f64_def)

lemma pieces_f64_constant:
  "i < length dx \<Longrightarrow> \<exists>c0 c1 c2. pieces_f64 dx slope s y ! i = (c0, c1, c2, y ! i)"
  by (simp add: pieces_f64_def Let_def del: upt_Suc)

lemma CubicSpline_f64_Inr:
  assumes "CubicSpline_f64 x y = Inr p"
  shows "2 \<le> length x" and "length y = length x" and "list_all is_Fin y"
    and "sorted_wrt (<) (map f64 x)" and "ppoly_x p = map f64 x"
    and "\<forall>i. Suc i < length x \<longrightarrow> (\<exists>c0 c1 c2. ppoly_c p ! i = (c0, c1, c2, the_Fin (y ! i)))"
proof -
  have a: "2 \<le> length x \<and> length y = length x \<and> list_all is_Fin y \<and> sorted_wrt (<) (map f64 x)"
    using assms by (auto simp: CubicSpline_f64_def Let_def split: if_splits)
  then show "2 \<le> length x" and "length y = length x" and "list_all is_Fin y"
    and "sorted_wrt (<) (map f64 x)" by simp_all
  obtain slope s where p: "p = \<lparr>ppoly_x = map f64 x,
      ppoly_c = pieces_f64 (diffs_f64 (map f64 x)) slope s (map the_Fin y)\<rparr>"
    using assms a
    by (auto simp: CubicSpline_f64_def Let_def split: if_splits prod.splits sum.splits)
  show "ppoly_x p = map f64 x" by (simp add: p)
  show "\<forall>i. Suc i < length x \<longrightarrow> (\<exists>c0 c1 c2. ppoly_c p ! i = (c0, c1, c2, the_Fin (y ! i)))"
  proof (intro allI impI)
    fix i assume i: "Suc i < length x"
    then have "i < length (diffs_f64 (map f64 x))" by simp
    from pieces_f64_constant[OF this, of slope s "map the_Fin y"]
    show "\<exists>c0 c1 c2. ppoly_c p ! i = (c0, c1, c2, the_Fin (y ! i))"
      using i a by (simp add: p)
  qed
qed

text \<open>
  At the left end of a piece the distance \<open>s\<close> is zero, every power of it is zero, and
  the sum is the constant coefficient, rounded: the coefficient itself when it is a
  float64.
\<close>

lemma ppoly_eval_f64_left_end:
  assumes "ppoly_c p ! find_interval (ppoly_x p) v = (c0, c1, c2, c3)"
    and "ppoly_x p ! find_interval (ppoly_x p) v = v" and "is_f64 c3"
  shows "ppoly_eval_f64 p v = c3"
  using assms
  by (simp add: ppoly_eval_f64_def Let_def add64_def sub64_def mul64_def is_f64_def)

lemma ppoly_call_f64_knot:
  assumes "CubicSpline_f64 x y = Inr p" and "Suc j < length x" and "is_f64 (the_Fin (y ! j))"
  shows "ppoly_call_f64 p (x ! j) = y ! j"
proof -
  note c = CubicSpline_f64_Inr[OF assms(1)]
  let ?x = "map f64 x"
  have s: "sorted ?x" using c(4) by (rule strict_sorted_imp_sorted)
  have ne: "?x \<noteq> []" using c(1) by auto
  have j: "j < length x" using assms(2) by simp
  have xj: "?x ! j = f64 (x ! j)" using j by simp
  have lo: "hd ?x \<le> ?x ! j"
    using sorted_nth_mono[OF s, of 0 j] j ne by (simp add: hd_conv_nth)
  have hi: "?x ! j \<le> last ?x"
    using sorted_nth_mono[OF s, of j "length ?x - 1"] j ne by (simp add: last_conv_nth)
  have inside: "\<not> (f64 (x ! j) < hd ?x \<or> last ?x < f64 (x ! j))" using lo hi xj by simp
  have less: "?x ! j < ?x ! Suc j"
    using sorted_wrt_nth_less[OF c(4), of j "Suc j"] assms(2) by simp
  have fi: "find_interval ?x (f64 (x ! j)) = j"
    using less assms(2) xj by (intro find_interval_between[OF c(4)]) simp_all
  obtain c0 c1 c2 where pc: "ppoly_c p ! j = (c0, c1, c2, the_Fin (y ! j))"
    using c(6) assms(2) by blast
  have "is_Fin (y ! j)" using c(2,3) j by (simp add: list_all_length)
  then have yj: "Fin (the_Fin (y ! j)) = y ! j" by (cases "y ! j") simp_all
  have "ppoly_eval_f64 p (f64 (x ! j)) = the_Fin (y ! j)"
    using pc fi xj assms(3) by (intro ppoly_eval_f64_left_end) (simp_all add: c(5))
  then show ?thesis using inside yj by (simp add: ppoly_call_f64_def Let_def c(5))
qed

lemma spline_side_f64_Inr:
  assumes "spline_side_f64 strikes side spread_col mid_col = Inr col"
  shows "\<exists>spread. spread_col = Some spread \<and>
           (if 3 \<le> length (knot_points side spread)
            then \<exists>mid cs. mid_col = Some mid \<and>
                   CubicSpline_f64 (map (\<lambda>i. strikes ! i) (knot_points side spread))
                                   (map (\<lambda>i. mid ! i) (knot_points side spread)) = Inr cs \<and>
                   col = map (ppoly_call_f64 cs) strikes
            else col = replicate (length strikes) NaN)"
  using assms
  by (auto simp: spline_side_f64_def Let_def split: option.splits sum.splits if_splits)

lemma spline_side_f64_knot:
  assumes "spline_side_f64 strikes side (Some spread) mid_col = Inr col"
    and "3 \<le> length (knot_points side spread)"
    and "k \<in> set (butlast (knot_points side spread))"
  shows "\<exists>mid. mid_col = Some mid \<and> is_Fin (mid ! k) \<and>
           (is_f64 (the_Fin (mid ! k)) \<longrightarrow>
              (\<forall>j<length strikes. strikes ! j = strikes ! k \<longrightarrow> col ! j = mid ! k))"
proof -
  let ?k = "knot_points side spread"
  let ?x = "map (\<lambda>i. strikes ! i) ?k"
  let ?y = "\<lambda>mid. map (\<lambda>i. mid ! i) ?k"
  obtain mid cs where m: "mid_col = Some mid"
    and cs: "CubicSpline_f64 ?x (?y mid) = Inr cs"
    and col: "col = map (ppoly_call_f64 cs) strikes"
    using spline_side_f64_Inr[OF assms(1)] assms(2) by auto
  obtain n where n: "n < length (butlast ?k)" "butlast ?k ! n = k"
    using assms(3) by (auto simp: in_set_conv_nth)
  then have n': "Suc n < length ?k" "?k ! n = k" by (simp_all add: nth_butlast)
  have "list_all is_Fin (?y mid)" by (rule CubicSpline_f64_Inr(3)[OF cs])
  then have fin: "is_Fin (mid ! k)" using n' by (auto simp: list_all_length)
  have at: "ppoly_call_f64 cs (strikes ! k) = mid ! k" if "is_f64 (the_Fin (mid ! k))"
  proof -
    have "ppoly_call_f64 cs (?x ! n) = ?y mid ! n"
      using n' that by (intro ppoly_call_f64_knot[OF cs]) simp_all
    then show ?thesis using n' by simp
  qed
  show ?thesis using m fin at col by auto
qed

lemma cubic_spline_correction_f64_Inr:
  assumes "cubic_spline_correction_f64 df fut = (Inr atm, df')"
  shows "\<exists>cm pm. loc (Strike df) (int (searchsorted (Strike df) fut) - 1) = Inr atm \<and>
           spline_side_f64 (Strike df) (call_rows (Strike df) atm) (Call_Spread df) (Call_Mid df) = Inr cm \<and>
           spline_side_f64 (Strike df) (put_rows (Strike df) atm) (Put_Spread df) (Put_Mid df) = Inr pm \<and>
           df' = df\<lparr>Call_Mid := Some cm, Put_Mid := Some pm\<rparr>"
  using assms
  by (auto simp: cubic_spline_correction_f64_def Let_def split: sum.splits)

section \<open>Properties of the strike spacing\<close>

lemma length_diff_prev [simp]: "length (diff_prev xs) = length xs"
  by (cases xs) (simp_all add: diff_prev_def)

lemma length_diff_next [simp]: "length (diff_next xs) = length xs"
  by (cases xs) (simp_all add: diff_next_def)

lemma nth_diff_prev:
  "i < length xs \<Longrightarrow> diff_prev xs ! i = (if i = 0 then NaN else Fin (xs ! i - xs ! (i - 1)))"
  by (cases xs; cases i) (simp_all add: diff_prev_def)

lemma nth_diff_next:
  "i < length xs \<Longrightarrow>
   diff_next xs ! i = (if i = length xs - 1 then NaN else Fin (xs ! i - xs ! (i + 1)))"
  by (cases xs) (auto simp: diff_next_def nth_append)

text \<open>
  The spacing column that lines 64 to 68 leave behind, row by row, for a strip of at least
  two rows.
\<close>

lemma strike_spacing_rows:
  assumes "2 \<le> length (Strike df)"
  shows "\<exists>dk df'. strike_spacing df = (Inr dk, df') \<and> delta_K df' = Some dk \<and>
           length dk = length (Strike df) \<and>
           df' = df\<lparr>diff_K_upper := diff_K_upper df', diff_K_lower := diff_K_lower df',
                    delta_K := Some dk\<rparr> \<and>
           (\<forall>i<length (Strike df). dk ! i =
              (if i = 0 then Fin \<bar>Strike df ! 0 - Strike df ! 1\<bar>
               else if i = length (Strike df) - 1
               then Fin \<bar>Strike df ! i - Strike df ! (i - 1)\<bar>
               else Fin ((\<bar>Strike df ! i - Strike df ! (i + 1)\<bar>
                          + \<bar>Strike df ! i - Strike df ! (i - 1)\<bar>) / 2)))"
proof -
  let ?K = "Strike df"
  let ?n = "length ?K"
  define upper where "upper = map fabs (diff_prev ?K)"
  define lower where "lower = map fabs (diff_next ?K)"
  define dk where "dk = map2 (\<lambda>l u. fdiv (fadd l u) (Fin 2)) lower upper"
  define dk2 where "dk2 = dk[0 := lower ! 0, ?n - 1 := upper ! (?n - 1)]"
  have len: "length upper = ?n" "length lower = ?n" "length dk = ?n" "length dk2 = ?n"
    by (simp_all add: upper_def lower_def dk_def dk2_def)
  have pos: "0 < ?n" using assms by linarith
  have l0: "loc lower 0 = Inr (lower ! 0)" using pos by (simp add: loc_def len)
  have ul: "loc upper (int ?n - 1) = Inr (upper ! (?n - 1))"
    using pos by (simp add: loc_def len nat_diff_distrib' int_ops)
  have nl: "nat (int ?n - 1) = ?n - 1" by simp
  have run: "strike_spacing df = (Inr dk2,
      df\<lparr>diff_K_upper := Some upper, diff_K_lower := Some lower, delta_K := Some dk2\<rparr>)"
    unfolding strike_spacing_def Let_def upper_def[symmetric] lower_def[symmetric]
      dk_def[symmetric] l0 ul nl
    by (simp add: dk2_def)
  have up: "upper ! i = (if i = 0 then NaN else Fin \<bar>?K ! i - ?K ! (i - 1)\<bar>)" if "i < ?n" for i
    using that by (simp add: upper_def nth_diff_prev)
  have lo: "lower ! i = (if i = ?n - 1 then NaN else Fin \<bar>?K ! i - ?K ! (i + 1)\<bar>)" if "i < ?n" for i
    using that by (simp add: lower_def nth_diff_next)
  have mid: "dk ! i = fdiv (fadd (lower ! i) (upper ! i)) (Fin 2)" if "i < ?n" for i
    using that len by (simp add: dk_def)
  have n1: "?n - 1 \<noteq> 0" "?n - 1 < ?n" using assms by linarith+
  have lo0: "lower ! 0 = Fin \<bar>?K ! 0 - ?K ! 1\<bar>"
    using lo[OF pos] n1(1) by simp
  have upl: "upper ! (?n - 1) = Fin \<bar>?K ! (?n - 1) - ?K ! (?n - 1 - 1)\<bar>"
    using up[OF n1(2)] n1(1) by simp
  have rows: "dk2 ! i =
      (if i = 0 then Fin \<bar>?K ! 0 - ?K ! 1\<bar>
       else if i = ?n - 1 then Fin \<bar>?K ! i - ?K ! (i - 1)\<bar>
       else Fin ((\<bar>?K ! i - ?K ! (i + 1)\<bar> + \<bar>?K ! i - ?K ! (i - 1)\<bar>) / 2))"
    if i: "i < ?n" for i
  proof -
    consider "i = 0" | "i \<noteq> 0" "i = ?n - 1" | "i \<noteq> 0" "i \<noteq> ?n - 1" by blast
    then show ?thesis
    proof cases
      case 1
      have "dk2 ! 0 = lower ! 0"
        unfolding dk2_def using n1(1) pos by (simp add: nth_list_update len)
      then show ?thesis using 1 lo0 by simp
    next
      case 2
      have "dk2 ! (?n - 1) = upper ! (?n - 1)"
        unfolding dk2_def using n1(2) by (simp add: nth_list_update len)
      then show ?thesis using 2 upl by simp
    next
      case 3
      have "dk2 ! i = dk ! i" unfolding dk2_def using 3 by (simp add: nth_list_update)
      then show ?thesis using 3 mid[OF i] up[OF i] lo[OF i] by simp
    qed
  qed
  show ?thesis using run len(4) rows by simp
qed

lemma strike_spacing_returns:
  assumes "Strike df \<noteq> []"
  shows "\<exists>dk df'. strike_spacing df = (Inr dk, df') \<and> length dk = length (Strike df) \<and>
           Strike df' = Strike df \<and> (\<forall>x\<in>set dk. is_Fin x \<or> x = NaN)"
proof (cases "2 \<le> length (Strike df)")
  case True
  obtain dk df' where r: "strike_spacing df = (Inr dk, df')" "length dk = length (Strike df)"
    "df' = df\<lparr>diff_K_upper := diff_K_upper df', diff_K_lower := diff_K_lower df',
             delta_K := Some dk\<rparr>"
    "\<forall>i<length (Strike df). dk ! i =
              (if i = 0 then Fin \<bar>Strike df ! 0 - Strike df ! 1\<bar>
               else if i = length (Strike df) - 1
               then Fin \<bar>Strike df ! i - Strike df ! (i - 1)\<bar>
               else Fin ((\<bar>Strike df ! i - Strike df ! (i + 1)\<bar>
                          + \<bar>Strike df ! i - Strike df ! (i - 1)\<bar>) / 2))"
    using strike_spacing_rows[OF True] by blast
  have "Strike df' = Strike df" by (subst r(3)) simp
  moreover have "\<forall>x\<in>set dk. is_Fin x \<or> x = NaN"
    using r(2,4) by (auto simp: in_set_conv_nth)
  ultimately show ?thesis using r(1,2) by blast
next
  case False
  then obtain k where k: "Strike df = [k]" using assms
    by (cases "Strike df"; cases "tl (Strike df)") auto
  show ?thesis
    by (simp add: strike_spacing_def k diff_prev_def diff_next_def loc_def Let_def)
qed

lemma strike_spacing_reads:
  "Strike a = Strike b \<Longrightarrow> fst (strike_spacing a) = fst (strike_spacing b)"
  by (simp add: strike_spacing_def Let_def split: sum.splits)

lemma strike_spacing_writes:
  "\<exists>u l d. snd (strike_spacing df) = df\<lparr>diff_K_upper := Some u, diff_K_lower := Some l, delta_K := Some d\<rparr>"
  unfolding strike_spacing_def Let_def by (auto split: sum.splits)

lemma same_inputs_spacing: "same_inputs df (snd (strike_spacing df))"
proof -
  obtain u l d where "snd (strike_spacing df)
      = df\<lparr>diff_K_upper := Some u, diff_K_lower := Some l, delta_K := Some d\<rparr>"
    using strike_spacing_writes by blast
  then show ?thesis by (simp add: same_inputs_def)
qed

lemma Strike_spacing [simp]: "Strike (snd (strike_spacing df)) = Strike df"
  using same_inputs_spacing[of df] by (simp add: same_inputs_def)

section \<open>The sum that skips NaN\<close>

text \<open>The sum that skips NaN adds up a column without NaN, and is always a number.\<close>

lemma foldl_fadd_Fin: "foldl fadd (Fin a) (map Fin ys) = Fin (a + sum_list ys)"
  by (induction ys arbitrary: a) (simp_all add: add.assoc)

lemma nansum_all_Fin:
  assumes "\<forall>i<length xs. xs ! i = Fin (f i)"
  shows "nansum xs = Fin (\<Sum>i<length xs. f i)"
proof -
  have xs: "xs = map Fin (map f [0..<length xs])"
    using assms by (intro nth_equalityI) simp_all
  have nn: "filter (\<lambda>x. x \<noteq> NaN) (map Fin ys) = map Fin ys" for ys :: "real list"
    by (induction ys) simp_all
  have "nansum xs = Fin (sum_list (map f [0..<length xs]))"
    by (subst xs) (simp add: nansum_def nn foldl_fadd_Fin del: map_map)
  also have "sum_list (map f [0..<length xs]) = (\<Sum>i<length xs. f i)"
    by (simp add: interv_sum_list_conv_sum_set_nat atLeast0LessThan)
  finally show ?thesis .
qed

lemma foldl_fadd_finite:
  "\<forall>x\<in>set xs. is_Fin x \<Longrightarrow> is_Fin (foldl fadd (Fin a) xs)"
proof (induction xs arbitrary: a)
  case Nil
  then show ?case by simp
next
  case (Cons x xs)
  then obtain b where "x = Fin b" by (cases x) auto
  then show ?case using Cons by simp
qed

lemma nansum_finite:
  assumes "\<forall>x\<in>set xs. is_Fin x \<or> x = NaN"
  shows "is_Fin (nansum xs)"
  unfolding nansum_def using assms by (intro foldl_fadd_finite) auto

lemma foldl_fadd_skip:
  "\<forall>x\<in>set xs. is_Fin x \<or> x = NaN \<Longrightarrow>
   foldl fadd (Fin a) (filter (\<lambda>x. x \<noteq> NaN) xs) = Fin (a + sum_list (map the_Fin xs))"
proof (induction xs arbitrary: a)
  case Nil
  then show ?case by simp
next
  case (Cons x xs)
  then show ?case by (cases x) (simp_all add: add.assoc)
qed

text \<open>A NaN entry counts as nothing in the sum (\<open>the_Fin\<close> reads it as 0).\<close>

lemma nansum_skips:
  "\<forall>x\<in>set xs. is_Fin x \<or> x = NaN \<Longrightarrow> nansum xs = Fin (sum_list (map the_Fin xs))"
  using foldl_fadd_skip[of xs 0] by (simp add: nansum_def)

lemma Q_where_fin_or_nan:
  "is_Fin p \<or> p = NaN \<Longrightarrow> is_Fin c \<or> c = NaN \<Longrightarrow>
   is_Fin (Q_where atm k p c) \<or> Q_where atm k p c = NaN"
  by (cases p; cases c) (auto simp: Q_where_def)

lemma contribution_row_fin_or_nan:
  "k \<noteq> 0 \<Longrightarrow> is_Fin d \<or> d = NaN \<Longrightarrow> is_Fin q \<or> q = NaN \<Longrightarrow>
   is_Fin (contribution_row ir T d k q) \<or> contribution_row ir T d k q = NaN"
  by (cases d; cases q) (auto simp: contribution_row_def)

section \<open>The variance of one expiry, step by step\<close>

lemma compute_sigma_KeyError:
  "searchsorted (Strike df) fut = 0 \<Longrightarrow> fst (compute_sigma df mte fut ir) = Inl KeyError"
  by (simp add: compute_sigma_def cubic_spline_correction_KeyError)

lemma compute_sigma_run:
  assumes "cubic_spline_correction (mids_and_spreads df) fut = (Inr atm, df1)"
    and "Put_Mid df1 = Some pm" and "Call_Mid df1 = Some cm"
    and "strike_spacing (df1\<lparr>Q := Some (map (\<lambda>(k, p, c). Q_where atm k p c)
                                       (zip (Strike df1) (zip pm cm)))\<rparr>) = (Inr dk, df3)"
  shows "compute_sigma df mte fut ir =
     (Inr (fdiv (fsub (fmul (Fin 2)
                   (nansum (map (\<lambda>(d, k, qi). contribution_row ir
                                    (real_of_int mte / real_of_int MINUTES_IN_A_YEAR) d k qi)
                              (zip dk (zip (Strike df3)
                                 (map (\<lambda>(k, p, c). Q_where atm k p c)
                                    (zip (Strike df1) (zip pm cm))))))))
                 (fmul (fsub (fdiv (Fin fut) (Fin atm)) (Fin 1))
                       (fsub (fdiv (Fin fut) (Fin atm)) (Fin 1))))
            (Fin (real_of_int mte / real_of_int MINUTES_IN_A_YEAR))),
      df3\<lparr>contribution := Some (map (\<lambda>(d, k, qi). contribution_row ir
                                    (real_of_int mte / real_of_int MINUTES_IN_A_YEAR) d k qi)
                              (zip dk (zip (Strike df3)
                                 (map (\<lambda>(k, p, c). Q_where atm k p c)
                                    (zip (Strike df1) (zip pm cm))))))\<rparr>)"
  using assms by (simp add: compute_sigma_def Let_def)

text \<open>
  Whenever the correction returns, on a strip without a zero strike and with a nonzero
  time to expiry, \<open>compute_sigma\<close> returns a finite number: the formula over the rows
  whose contribution is defined.
\<close>

lemma compute_sigma_finite:
  assumes "\<forall>k\<in>set (Strike df). k \<noteq> 0" and "mte \<noteq> 0"
    and "cubic_spline_correction (mids_and_spreads df) fut = (Inr atm, df1)"
  shows "\<exists>c. contribution (snd (compute_sigma df mte fut ir)) = Some c \<and>
           (\<forall>x\<in>set c. is_Fin x \<or> x = NaN) \<and>
           fst (compute_sigma df mte fut ir) =
             Inr (Fin ((2 * sum_list (map the_Fin c) - (fut / atm - 1)\<^sup>2)
                       / (real_of_int mte / 525600)))"
proof -
  let ?K = "Strike df"
  define T where "T = real_of_int mte / real_of_int MINUTES_IN_A_YEAR"
  have T: "T = real_of_int mte / 525600" "T \<noteq> 0"
    using assms(2) by (simp_all add: T_def MINUTES_IN_A_YEAR_def)
  obtain cm pm where
    look: "loc (Strike (mids_and_spreads df)) (int (searchsorted (Strike (mids_and_spreads df)) fut) - 1)
            = Inr atm"
    and sc: "spline_side (Strike (mids_and_spreads df)) (call_rows (Strike (mids_and_spreads df)) atm)
              (Call_Spread (mids_and_spreads df)) (Call_Mid (mids_and_spreads df)) = Inr cm"
    and sp: "spline_side (Strike (mids_and_spreads df)) (put_rows (Strike (mids_and_spreads df)) atm)
              (Put_Spread (mids_and_spreads df)) (Put_Mid (mids_and_spreads df)) = Inr pm"
    and d1: "df1 = (mids_and_spreads df)\<lparr>Call_Mid := Some cm, Put_Mid := Some pm\<rparr>"
    using cubic_spline_correction_Inr[OF assms(3)] by blast
  have K1: "Strike df1 = ?K" and cols: "Put_Mid df1 = Some pm" "Call_Mid df1 = Some cm"
    using d1 by simp_all
  have mem: "atm \<in> set ?K" using loc_Inr_mem[OF look] by simp
  then have atm: "atm \<noteq> 0" and ne: "?K \<noteq> []" using assms(1) by auto
  have cmf: "\<forall>x\<in>set cm. is_Fin x \<or> x = NaN" and pmf: "\<forall>x\<in>set pm. is_Fin x \<or> x = NaN"
    using spline_side_fin_or_nan[OF sc] spline_side_fin_or_nan[OF sp] by simp_all
  define q where "q = map (\<lambda>(k, p, c). Q_where atm k p c) (zip (Strike df1) (zip pm cm))"
  have qf: "\<forall>x\<in>set q. is_Fin x \<or> x = NaN"
  proof
    fix x assume "x \<in> set q"
    then obtain k p c where x: "x = Q_where atm k p c"
      and z: "(k, p, c) \<in> set (zip (Strike df1) (zip pm cm))"
      by (auto simp: q_def)
    have "(p, c) \<in> set (zip pm cm)" using z by (rule set_zip_rightD)
    then have "p \<in> set pm" "c \<in> set cm" by (auto dest: set_zip_leftD set_zip_rightD)
    then show "is_Fin x \<or> x = NaN" unfolding x using Q_where_fin_or_nan cmf pmf by simp
  qed
  have ne2: "Strike (df1\<lparr>Q := Some q\<rparr>) \<noteq> []" using ne K1 by simp
  obtain dk df3 where s: "strike_spacing (df1\<lparr>Q := Some q\<rparr>) = (Inr dk, df3)"
    and K3: "Strike df3 = ?K" and dkf: "\<forall>x\<in>set dk. is_Fin x \<or> x = NaN"
    using strike_spacing_returns[OF ne2] K1 by auto
  define c where
    "c = map (\<lambda>(d, k, qi). contribution_row ir T d k qi) (zip dk (zip (Strike df3) q))"
  have cf: "\<forall>x\<in>set c. is_Fin x \<or> x = NaN"
  proof
    fix x assume "x \<in> set c"
    then obtain d k qi where x: "x = contribution_row ir T d k qi"
      and z: "(d, k, qi) \<in> set (zip dk (zip (Strike df3) q))"
      by (auto simp: c_def)
    have z2: "(k, qi) \<in> set (zip (Strike df3) q)" using z by (rule set_zip_rightD)
    have m: "d \<in> set dk" "k \<in> set (Strike df3)" "qi \<in> set q"
      using z z2 by (auto dest: set_zip_leftD set_zip_rightD)
    have "k \<noteq> 0" using m(2) K3 assms(1) by auto
    then show "is_Fin x \<or> x = NaN"
      unfolding x using contribution_row_fin_or_nan m(1,3) dkf qf by simp
  qed
  note run = compute_sigma_run[OF assms(3) cols s[unfolded q_def], of mte ir,
      folded q_def T_def, folded c_def]
  have "fst (compute_sigma df mte fut ir) =
      Inr (Fin ((2 * sum_list (map the_Fin c) - (fut / atm - 1)\<^sup>2) / (real_of_int mte / 525600)))"
    unfolding run using nansum_skips[OF cf] atm T(2)
    by (simp add: fsub_def T(1) power2_eq_square algebra_simps)
  moreover have "contribution (snd (compute_sigma df mte fut ir)) = Some c"
    unfolding run by simp
  ultimately show ?thesis using cf by blast
qed

text \<open>\<open>compute_sigma\<close> leaves the five input columns as they were.\<close>

lemma same_inputs_compute_sigma: "same_inputs df (snd (compute_sigma df mte fut ir))"
proof -
  obtain r df1 where c: "cubic_spline_correction (mids_and_spreads df) fut = (r, df1)"
    by (cases "cubic_spline_correction (mids_and_spreads df) fut") auto
  have s1: "same_inputs df df1"
    using same_inputs_trans[OF same_inputs_mids_and_spreads
        same_inputs_correction[of "mids_and_spreads df" fut]] c by simp
  have s3: "same_inputs df x" if "strike_spacing (df1\<lparr>Q := q\<rparr>) = (r3, x)" for q r3 x
  proof -
    have "same_inputs df (df1\<lparr>Q := q\<rparr>)" using s1 by (simp add: same_inputs_def)
    moreover have "same_inputs (df1\<lparr>Q := q\<rparr>) x"
      using same_inputs_spacing[of "df1\<lparr>Q := q\<rparr>"] that by simp
    ultimately show ?thesis by (rule same_inputs_trans)
  qed
  have s4: "same_inputs df (x\<lparr>contribution := y\<rparr>)"
    if "strike_spacing (df1\<lparr>Q := q\<rparr>) = (r3, x)" for q r3 x y
    using s3[OF that] by (simp add: same_inputs_def)
  show ?thesis
    unfolding compute_sigma_def c
    by (auto simp: Let_def s1 split: sum.splits option.splits prod.splits intro: s3 s4)
qed

text \<open>The result of \<open>compute_sigma\<close> depends on the five input columns only.\<close>

lemma compute_sigma_reads:
  assumes "same_inputs a b"
  shows "fst (compute_sigma a mte fut ir) = fst (compute_sigma b mte fut ir)"
proof -
  let ?A = "mids_and_spreads a" and ?B = "mids_and_spreads b"
  have m: "Strike ?A = Strike ?B" "Call_Spread ?A = Call_Spread ?B" "Call_Mid ?A = Call_Mid ?B"
    "Put_Spread ?A = Put_Spread ?B" "Put_Mid ?A = Put_Mid ?B"
    using assms by (simp_all add: same_inputs_def mids_and_spreads_def Let_def)
  obtain r A1 where ca: "cubic_spline_correction ?A fut = (r, A1)"
    by (cases "cubic_spline_correction ?A fut") auto
  obtain r' B1 where cb: "cubic_spline_correction ?B fut = (r', B1)"
    by (cases "cubic_spline_correction ?B fut") auto
  have e: "r' = r" "Call_Mid B1 = Call_Mid A1" "Put_Mid B1 = Put_Mid A1"
    using cubic_spline_correction_reads[OF m, of fut] ca cb by simp_all
  have k: "Strike B1 = Strike A1"
    using Strike_correction[of ?A fut] Strike_correction[of ?B fut] ca cb m(1) by simp
  have sp: "fst (strike_spacing (A1\<lparr>Q := q\<rparr>)) = fst (strike_spacing (B1\<lparr>Q := q\<rparr>))"
    "Strike (snd (strike_spacing (A1\<lparr>Q := q\<rparr>))) = Strike (snd (strike_spacing (B1\<lparr>Q := q\<rparr>)))"
    for q
    using strike_spacing_reads[of "A1\<lparr>Q := q\<rparr>" "B1\<lparr>Q := q\<rparr>"] k by simp_all
  show ?thesis
  proof (cases r)
    case (Inl err)
    then show ?thesis by (simp add: compute_sigma_def ca cb e)
  next
    case (Inr atm)
    show ?thesis
    proof (cases "\<exists>pm cm. Put_Mid A1 = Some pm \<and> Call_Mid A1 = Some cm")
      case False
      then show ?thesis
        by (auto simp: compute_sigma_def ca cb e Inr split: option.splits)
    next
      case True
      then obtain pm cm where c: "Put_Mid A1 = Some pm" "Call_Mid A1 = Some cm" by blast
      let ?q = "Some (map (\<lambda>(k, p, c). Q_where atm k p c) (zip (Strike A1) (zip pm cm)))"
      obtain ra A3 where sa: "strike_spacing (A1\<lparr>Q := ?q\<rparr>) = (ra, A3)"
        by (cases "strike_spacing (A1\<lparr>Q := ?q\<rparr>)") auto
      obtain rb B3 where sb: "strike_spacing (B1\<lparr>Q := ?q\<rparr>) = (rb, B3)"
        by (cases "strike_spacing (B1\<lparr>Q := ?q\<rparr>)") auto
      have e3: "rb = ra" "Strike B3 = Strike A3" using sp[of ?q] sa sb by simp_all
      show ?thesis
        by (cases ra) (simp_all add: compute_sigma_def ca cb e Inr c k sa sb e3 Let_def)
    qed
  qed
qed

text \<open>After a normal return every derived column is assigned.\<close>

lemma compute_sigma_assigns:
  assumes "compute_sigma df mte fut ir = (Inr v, df')"
  shows "derived_assigned df'"
proof -
  let ?A = "mids_and_spreads df"
  obtain r A1 where ca: "cubic_spline_correction ?A fut = (r, A1)"
    by (cases "cubic_spline_correction ?A fut") auto
  obtain cm' pm' where w: "A1 = ?A\<lparr>Call_Mid := cm', Put_Mid := pm'\<rparr>"
    using cubic_spline_correction_writes[of ?A fut] ca by auto
  have sprd: "Call_Spread A1 \<noteq> None" "Put_Spread A1 \<noteq> None"
    by (simp_all add: w mids_and_spreads_def Let_def)
  obtain atm where r: "r = Inr atm"
    using assms ca by (cases r) (simp_all add: compute_sigma_def)
  obtain pm cm where c: "Put_Mid A1 = Some pm" "Call_Mid A1 = Some cm"
    using assms ca r by (auto simp: compute_sigma_def split: option.splits)
  let ?q = "Some (map (\<lambda>(k, p, c). Q_where atm k p c) (zip (Strike A1) (zip pm cm)))"
  obtain ra A3 where sa: "strike_spacing (A1\<lparr>Q := ?q\<rparr>) = (ra, A3)"
    by (cases "strike_spacing (A1\<lparr>Q := ?q\<rparr>)") auto
  obtain u l d where w3:
    "A3 = A1\<lparr>Q := ?q, diff_K_upper := Some u, diff_K_lower := Some l, delta_K := Some d\<rparr>"
    using strike_spacing_writes[of "A1\<lparr>Q := ?q\<rparr>"] sa by auto
  obtain dk where ra: "ra = Inr dk"
    using assms ca r c sa by (cases ra) (simp_all add: compute_sigma_def Let_def)
  have "\<exists>x. df' = A3\<lparr>contribution := Some x\<rparr>"
    using assms ca r c sa ra by (auto simp: compute_sigma_def Let_def)
  then show ?thesis
    using w3 c sprd by (auto simp: derived_assigned_def)
qed

section \<open>The examples, evaluated\<close>

text \<open>
  The example strips are run through the model by rewriting with its definitions.
\<close>

lemmas eval_defs = option_chain_def searchsorted_def binsearch_left.simps Let_def
  mids_and_spreads_def cubic_spline_correction_def loc_def call_rows_def put_rows_def
  spline_side_def knot_points_def CubicSpline_def natural_spline_def tridiag_rows_def
  solve_banded_def ppoly_call_def ppoly_eval_def fsub_def

lemmas sigma_defs = compute_sigma_def strike_spacing_def diff_prev_def diff_next_def
  nansum_def contribution_row_def Q_where_def MINUTES_IN_A_YEAR_def

lemmas vix_defs = vix_calculator_def weight_1_def weight_2_def py_div_def MINUTES_IN_30_DAYS_def
  toy_data_def late_data_def

lemma near_chain_atm:
  "fst (cubic_spline_correction (mids_and_spreads near_chain) 125) = Inr 120"
  by (simp add: near_chain_def eval_defs)

lemma near_chain_call_mid:
  "Call_Mid (snd (cubic_spline_correction (mids_and_spreads near_chain) 125))
     = Some [NaN, NaN, Fin 9, Fin 4, Fin 2]"
  by (simp add: near_chain_def eval_defs)

lemma near_chain_put_mid:
  "Put_Mid (snd (cubic_spline_correction (mids_and_spreads near_chain) 125))
     = Some [Fin 1, Fin 3, Fin 6, NaN, NaN]"
  by (simp add: near_chain_def eval_defs)

lemma wide_chain_prepared:
  "mids_and_spreads wide_chain = wide_chain
     \<lparr>Call_Mid := Some [Fin 26, Fin 17, Fin 9, Fin 4, Fin 2, Fin 1],
      Put_Mid := Some [Fin 1, Fin 3, Fin 6, Fin 11, Fin 19, Fin 28],
      Call_Spread := Some [Fin (1 / 13), Fin (2 / 17), Fin (2 / 9), Fin (1 / 4), Fin (1 / 4), Fin 1],
      Put_Spread := Some [Fin (1 / 5), Fin (1 / 6), Fin (1 / 6), Fin (2 / 11), Fin (2 / 19), Fin (1 / 14)]\<rparr>"
  by (simp add: wide_chain_def option_chain_def mids_and_spreads_def fsub_def)

lemma wide_chain_atm:
  "fst (cubic_spline_correction (mids_and_spreads wide_chain) 125) = Inr 120"
  by (simp add: wide_chain_def eval_defs)

lemma wide_chain_call_knots:
  "knot_points (call_rows (Strike wide_chain) 120)
     [Fin (1 / 13), Fin (2 / 17), Fin (2 / 9), Fin (1 / 4), Fin (1 / 4), Fin 1] = [2, 3, 4]"
  by (simp add: wide_chain_def option_chain_def call_rows_def knot_points_def)

lemma thin_chain_correction:
  "fst (cubic_spline_correction (mids_and_spreads thin_chain) 125) = Inr 120"
  "Call_Spread (mids_and_spreads thin_chain)
     = Some [Fin (1 / 13), Fin (2 / 17), Fin (2 / 9), Fin (1 / 4)]"
  "Put_Spread (mids_and_spreads thin_chain)
     = Some [Fin (1 / 5), Fin (1 / 6), Fin (1 / 6), Fin (2 / 11)]"
  "Call_Mid (snd (cubic_spline_correction (mids_and_spreads thin_chain) 125))
     = Some [NaN, NaN, NaN, NaN]"
  "Put_Mid (snd (cubic_spline_correction (mids_and_spreads thin_chain) 125))
     = Some [Fin 1, Fin 3, Fin 6, NaN]"
  by (simp_all add: thin_chain_def eval_defs)

lemma thin_chain_call_knots:
  "knot_points (call_rows (Strike thin_chain) 120)
     [Fin (1 / 13), Fin (2 / 17), Fin (2 / 9), Fin (1 / 4)] = [2, 3]"
  by (simp add: thin_chain_def option_chain_def call_rows_def knot_points_def)

lemma thin_chain_sigma:
  "fst (compute_sigma thin_chain 12960 125 0) = Inr (Fin (3321427 / 15681600))"
  by (simp add: thin_chain_def eval_defs sigma_defs)

lemma thin_chain_contribution:
  "contribution (snd (compute_sigma thin_chain 12960 125 0))
     = Some [Fin (1 / 1000), Fin (3 / 1210), NaN, NaN]"
  by (simp add: thin_chain_def eval_defs sigma_defs)

lemma toy_sigma_1:
  "fst (compute_sigma near_chain 12960 125 0) = Inr (Fin (118042545337 / 129859329600))"
  by (simp add: near_chain_def eval_defs sigma_defs)

lemma toy_sigma_2:
  "fst (compute_sigma next_chain 53280 127 0) = Inr (Fin (53657126563 / 177955377600))"
  by (simp add: next_chain_def eval_defs sigma_defs)

lemma toy_call_mid:
  "Call_Mid (snd (compute_sigma near_chain 12960 125 0)) = Some [NaN, NaN, Fin 9, Fin 4, Fin 2]"
  by (simp add: near_chain_def eval_defs sigma_defs)

lemma toy_vix:
  "fst (vix_calculator toy_data) = Inr (Fin (100 * sqrt (150239171101 / 432864432000)))"
  "Call_Mid (fst (snd (vix_calculator toy_data))) = Some [NaN, NaN, Fin 9, Fin 4, Fin 2]"
proof -
  obtain d1 where p1: "compute_sigma near_chain 12960 125 0
      = (Inr (Fin (118042545337 / 129859329600)), d1)"
    using toy_sigma_1 by (cases "compute_sigma near_chain 12960 125 0") simp
  obtain d2 where p2: "compute_sigma next_chain 53280 127 0
      = (Inr (Fin (53657126563 / 177955377600)), d2)"
    using toy_sigma_2 by (cases "compute_sigma next_chain 53280 127 0") simp
  show "fst (vix_calculator toy_data) = Inr (Fin (100 * sqrt (150239171101 / 432864432000)))"
    by (simp add: vix_defs MINUTES_IN_A_YEAR_def p1 p2)
  have "Call_Mid d1 = Some [NaN, NaN, Fin 9, Fin 4, Fin 2]" using toy_call_mid p1 by simp
  then show "Call_Mid (fst (snd (vix_calculator toy_data))) = Some [NaN, NaN, Fin 9, Fin 4, Fin 2]"
    by (simp add: vix_defs MINUTES_IN_A_YEAR_def p1 p2)
qed

lemma late_sigma_1:
  "fst (compute_sigma near_chain 50000 125 0) = Inr (Fin (118042545337 / 501000500000))"
  by (simp add: near_chain_def eval_defs sigma_defs)

lemma late_sigma_2:
  "fst (compute_sigma next_chain 60000 127 0) = Inr (Fin (53657126563 / 200400200000))"
  by (simp add: next_chain_def eval_defs sigma_defs)

lemma late_vix:
  "fst (vix_calculator late_data) = Inr (Fin (100 * sqrt (246808161049 / 1202401200000)))"
proof -
  obtain d1 where p1: "compute_sigma near_chain 50000 125 0
      = (Inr (Fin (118042545337 / 501000500000)), d1)"
    using late_sigma_1 by (cases "compute_sigma near_chain 50000 125 0") simp
  obtain d2 where p2: "compute_sigma next_chain 60000 127 0
      = (Inr (Fin (53657126563 / 200400200000)), d2)"
    using late_sigma_2 by (cases "compute_sigma next_chain 60000 127 0") simp
  show ?thesis
    by (simp add: vix_defs MINUTES_IN_A_YEAR_def p1 p2)
qed

lemma equal_sigma_2:
  "fst (compute_sigma next_chain 50000 127 0) = Inr (Fin (160971379689 / 501000500000))"
  by (simp add: next_chain_def eval_defs sigma_defs)

text \<open>
  For the float64 model the rounding is unfolded on numerals only, so that it is
  evaluated from the inside out.
\<close>

lemmas f64_numeral =
  f64_def[of 0] f64_def[of 1] f64_def[of "- 1"]
  f64_def[of "numeral a" for a] f64_def[of "- numeral a" for a]
  f64_def[of "1 / numeral b" for b] f64_def[of "- (1 / numeral b)" for b]
  f64_def[of "numeral a / numeral b" for a b] f64_def[of "- (numeral a / numeral b)" for a b]

lemmas f64_eval = f64_numeral binade_def pow2_def round_half_even_def bit_length.simps Let_def
  add64_def sub64_def mul64_def div64_def

text \<open>
  The rounding on numbers whose float64 is known: 0.1, 1/3, the two ties next to
  \<open>2^53\<close>, which go to the even neighbour, a negative number and a number that is a
  float64 already.
\<close>

lemma f64_examples:
  "f64 (1 / 10) = 3602879701896397 / 36028797018963968"
  "f64 (1 / 3) = 6004799503160661 / 18014398509481984"
  "f64 9007199254740993 = 9007199254740992"
  "f64 9007199254740995 = 9007199254740996"
  "f64 (- (2 / 10)) = - (3602879701896397 / 18014398509481984)"
  "f64 (3 / 4) = 3 / 4"
  by (simp_all add: f64_eval)

text \<open>
  The float64 spline of \<open>wide_chain\<close>, stage by stage: the call side through the strikes
  120, 130, 140 with the mids 9, 4, 2, and the put side through 100, 110, 120 with the
  mids 1, 3, 6.
\<close>

lemma wide_call_diffs: "diffs_f64 [120, 130, 140] = [10, 10]"
  by (simp add: diffs_f64_def f64_eval)

lemma wide_call_slopes: "slopes_f64 [10, 10] [9, 4, 2] = [- (1 / 2), - (3602879701896397 / 18014398509481984)]"
  by (simp add: slopes_f64_def f64_eval)

lemma wide_call_system:
  "natural_system_f64 [10, 10] [- (1 / 2), - (3602879701896397 / 18014398509481984)] [9, 4, 2]
     = ([10, 10], [20, 40, 20], [10, 10], [- 15, - 21, - 6])"
  by (simp add: natural_system_f64_def f64_eval)

lemma wide_call_step_0:
  "gtsv_step True 0 ([10, 10], [20, 40, 20], [10, 10], [- 15, - 21, - 6])
     = Inr ([0, 10], [20, 35, 20], [10, 10], [- 15, - (27 / 2), - 6])"
  by (simp add: gtsv_step_def f64_eval)

lemma wide_call_step_1:
  "gtsv_step False (Suc 0) ([0, 10], [20, 35, 20], [10, 10], [- 15, - (27 / 2), - 6])
     = Inr ([0, 10], [20, 35, 4825285315039817 / 281474976710656], [10, 10], [- 15, - (27 / 2), - (2412642657519909 / 1125899906842624)])"
  by (simp add: gtsv_step_def f64_eval)

lemma wide_call_back:
  "gtsv_back (Suc (Suc (Suc 0))) ([0, 10], [20, 35, 4825285315039817 / 281474976710656], [10, 10], [- 15, - (27 / 2), - (2412642657519909 / 1125899906842624)])
     = [- (2589569785738035 / 4503599627370496), - (3152519739159347 / 9007199254740992), - (4503599627370497 / 36028797018963968)]"
  by (simp add: gtsv_back_def f64_eval)

lemma wide_call_solve:
  "gtsv_f64 [10, 10] [20, 40, 20] [10, 10] [- 15, - 21, - 6]
     = Inr [- (2589569785738035 / 4503599627370496), - (3152519739159347 / 9007199254740992), - (4503599627370497 / 36028797018963968)]"
  by (simp add: gtsv_f64_def wide_call_step_0 wide_call_step_1 wide_call_back)

lemma wide_call_pieces:
  "pieces_f64 [10, 10] [- (1 / 2), - (3602879701896397 / 18014398509481984)] [- (2589569785738035 / 4503599627370496), - (3152519739159347 / 9007199254740992), - (4503599627370497 / 36028797018963968)] [9, 4, 2]
     = [(27021597764223 / 36028797018963968, - (13 / 1152921504606846976), - (2589569785738035 / 4503599627370496), 9), (- (3458764513820539 / 4611686018427387904), 810647932926689 / 36028797018963968, - (3152519739159347 / 9007199254740992), 4)]"
  by (simp add: pieces_f64_def f64_eval)

lemma wide_call_cast: "f64 120 = 120" "f64 130 = 130" "f64 140 = 140"
  by (simp_all add: f64_eval)

lemma wide_call_spline:
  "CubicSpline_f64 [120, 130, 140] [Fin 9, Fin 4, Fin 2]
     = Inr \<lparr>ppoly_x = [120, 130, 140], ppoly_c = [(27021597764223 / 36028797018963968, - (13 / 1152921504606846976), - (2589569785738035 / 4503599627370496), 9), (- (3458764513820539 / 4611686018427387904), 810647932926689 / 36028797018963968, - (3152519739159347 / 9007199254740992), 4)]\<rparr>"
  by (simp add: CubicSpline_f64_def wide_call_cast wide_call_diffs wide_call_slopes wide_call_system wide_call_solve wide_call_pieces)

lemma wide_call_values:
  "map (ppoly_call_f64 \<lparr>ppoly_x = [120, 130, 140], ppoly_c = [(27021597764223 / 36028797018963968, - (13 / 1152921504606846976), - (2589569785738035 / 4503599627370496), 9), (- (3458764513820539 / 4611686018427387904), 810647932926689 / 36028797018963968, - (3152519739159347 / 9007199254740992), 4)]\<rparr>) [100, 110, 120, 130, 140, 150]
     = [NaN, NaN, Fin 9, Fin 4, Fin (4503599627370495 / 2251799813685248), NaN]"
  by (simp add: ppoly_call_f64_def ppoly_eval_f64_def f64_eval)

lemma wide_put_diffs: "diffs_f64 [100, 110, 120] = [10, 10]"
  by (simp add: diffs_f64_def f64_eval)

lemma wide_put_slopes: "slopes_f64 [10, 10] [1, 3, 6] = [3602879701896397 / 18014398509481984, 5404319552844595 / 18014398509481984]"
  by (simp add: slopes_f64_def f64_eval)

lemma wide_put_system:
  "natural_system_f64 [10, 10] [3602879701896397 / 18014398509481984, 5404319552844595 / 18014398509481984] [1, 3, 6]
     = ([10, 10], [20, 40, 20], [10, 10], [6, 15, 9])"
  by (simp add: natural_system_f64_def f64_eval)

lemma wide_put_step_0:
  "gtsv_step True 0 ([10, 10], [20, 40, 20], [10, 10], [6, 15, 9])
     = Inr ([0, 10], [20, 35, 20], [10, 10], [6, 12, 9])"
  by (simp add: gtsv_step_def f64_eval)

lemma wide_put_step_1:
  "gtsv_step False (Suc 0) ([0, 10], [20, 35, 20], [10, 10], [6, 12, 9])
     = Inr ([0, 10], [20, 35, 4825285315039817 / 281474976710656], [10, 10], [6, 12, 3136435454775881 / 562949953421312])"
  by (simp add: gtsv_step_def f64_eval)

lemma wide_put_back:
  "gtsv_back (Suc (Suc (Suc 0))) ([0, 10], [20, 35, 4825285315039817 / 281474976710656], [10, 10], [6, 12, 3136435454775881 / 562949953421312])
     = [3152519739159347 / 18014398509481984, 1 / 4, 5854679515581645 / 18014398509481984]"
  by (simp add: gtsv_back_def f64_eval)

lemma wide_put_solve:
  "gtsv_f64 [10, 10] [20, 40, 20] [10, 10] [6, 15, 9]
     = Inr [3152519739159347 / 18014398509481984, 1 / 4, 5854679515581645 / 18014398509481984]"
  by (simp add: gtsv_f64_def wide_put_step_0 wide_put_step_1 wide_put_back)

lemma wide_put_pieces:
  "pieces_f64 [10, 10] [3602879701896397 / 18014398509481984, 5404319552844595 / 18014398509481984] [3152519739159347 / 18014398509481984, 1 / 4, 5854679515581645 / 18014398509481984] [1, 3, 6]
     = [(2305843009213691 / 9223372036854775808, 13 / 2305843009213693952, 3152519739159347 / 18014398509481984, 1), (- (9007199254741 / 36028797018963968), 4323455642275677 / 576460752303423488, 1 / 4, 3)]"
  by (simp add: pieces_f64_def f64_eval)

lemma wide_put_cast: "f64 100 = 100" "f64 110 = 110" "f64 120 = 120"
  by (simp_all add: f64_eval)

lemma wide_put_spline:
  "CubicSpline_f64 [100, 110, 120] [Fin 1, Fin 3, Fin 6]
     = Inr \<lparr>ppoly_x = [100, 110, 120], ppoly_c = [(2305843009213691 / 9223372036854775808, 13 / 2305843009213693952, 3152519739159347 / 18014398509481984, 1), (- (9007199254741 / 36028797018963968), 4323455642275677 / 576460752303423488, 1 / 4, 3)]\<rparr>"
  by (simp add: CubicSpline_f64_def wide_put_cast wide_put_diffs wide_put_slopes wide_put_system wide_put_solve wide_put_pieces)

lemma wide_put_values:
  "map (ppoly_call_f64 \<lparr>ppoly_x = [100, 110, 120], ppoly_c = [(2305843009213691 / 9223372036854775808, 13 / 2305843009213693952, 3152519739159347 / 18014398509481984, 1), (- (9007199254741 / 36028797018963968), 4323455642275677 / 576460752303423488, 1 / 4, 3)]\<rparr>) [100, 110, 120, 130, 140, 150]
     = [Fin 1, Fin 3, Fin 6, NaN, NaN, NaN]"
  by (simp add: ppoly_call_f64_def ppoly_eval_f64_def f64_eval)

lemmas correction_f64_defs = option_chain_def searchsorted_def binsearch_left.simps Let_def
  cubic_spline_correction_f64_def loc_def call_rows_def put_rows_def
  spline_side_f64_def knot_points_def

lemma wide_chain_f64:
  "fst (cubic_spline_correction_f64 (mids_and_spreads wide_chain) 125) = Inr 120"
  "Call_Mid (snd (cubic_spline_correction_f64 (mids_and_spreads wide_chain) 125))
     = Some [NaN, NaN, Fin 9, Fin 4, Fin (4503599627370495 / 2251799813685248), NaN]"
  "Put_Mid (snd (cubic_spline_correction_f64 (mids_and_spreads wide_chain) 125))
     = Some [Fin 1, Fin 3, Fin 6, NaN, NaN, NaN]"
  using wide_call_values wide_put_values
  by (simp_all add: wide_chain_def mids_and_spreads_def fsub_def correction_f64_defs
        wide_call_spline wide_put_spline)

lemma is_f64_examples: "is_f64 9" "is_f64 4" "is_f64 2"
  by (simp_all add: is_f64_def f64_eval)

section \<open>C1: the variance formula\<close>

text \<open>
  Claim C1.  For every strip of at least two rows with strictly increasing positive
  strikes, a futures price above the smallest strike and a positive number of minutes to
  expiry, whose corrected mids are defined wherever Q reads them (the put mid below the
  ATM strike, the call mid above it, both at it), \<open>compute_sigma\<close> returns exactly
  \<open>(2 * sum (delta_K / strike^2 * exp (ir * T) * Q) - (fut / ATM - 1)^2) / T\<close> with
  \<open>T = mte / 525600\<close>.
\<close>

theorem compute_sigma_formula:
  assumes "wf_frame df" and "2 \<le> length (Strike df)" and "sorted_wrt (<) (Strike df)"
    and "\<forall>k\<in>set (Strike df). 0 < k" and "hd (Strike df) < fut" and "0 < mte"
    and "cubic_spline_correction (mids_and_spreads df) fut = (Inr atm, df1)"
    and "Put_Mid df1 = Some put_mid" and "Call_Mid df1 = Some call_mid"
    and "\<forall>i<length (Strike df).
           (Strike df ! i < atm \<longrightarrow> put_mid ! i = Fin (q i)) \<and>
           (atm < Strike df ! i \<longrightarrow> call_mid ! i = Fin (q i)) \<and>
           (Strike df ! i = atm \<longrightarrow>
              (\<exists>p c. put_mid ! i = Fin p \<and> call_mid ! i = Fin c \<and> q i = (p + c) / 2))"
  shows "fst (compute_sigma df mte fut ir) =
           Inr (Fin ((2 * (\<Sum>i<length (Strike df).
                             delta_K_spec (Strike df) i / (Strike df ! i)\<^sup>2
                               * exp (ir * (real_of_int mte / 525600)) * q i)
                      - (fut / atm - 1)\<^sup>2)
                     / (real_of_int mte / 525600)))"
proof -
  let ?K = "Strike df"
  let ?n = "length ?K"
  define T where "T = real_of_int mte / real_of_int MINUTES_IN_A_YEAR"
  have T: "T = real_of_int mte / 525600" "T \<noteq> 0"
    using assms(6) by (simp_all add: T_def MINUTES_IN_A_YEAR_def)
  obtain cm pm where
    look: "loc (Strike (mids_and_spreads df)) (int (searchsorted (Strike (mids_and_spreads df)) fut) - 1)
            = Inr atm"
    and sc: "spline_side (Strike (mids_and_spreads df)) (call_rows (Strike (mids_and_spreads df)) atm)
              (Call_Spread (mids_and_spreads df)) (Call_Mid (mids_and_spreads df)) = Inr cm"
    and sp: "spline_side (Strike (mids_and_spreads df)) (put_rows (Strike (mids_and_spreads df)) atm)
              (Put_Spread (mids_and_spreads df)) (Put_Mid (mids_and_spreads df)) = Inr pm"
    and d1: "df1 = (mids_and_spreads df)\<lparr>Call_Mid := Some cm, Put_Mid := Some pm\<rparr>"
    using cubic_spline_correction_Inr[OF assms(7)] by blast
  have K1: "Strike df1 = ?K" using d1 by simp
  have "cm = call_mid" "pm = put_mid" using d1 assms(8,9) by simp_all
  then have len: "length call_mid = ?n" "length put_mid = ?n"
    using length_spline_side[OF sc] length_spline_side[OF sp] by simp_all
  have "atm \<in> set ?K" using loc_Inr_mem[OF look] by simp
  then have atm: "atm \<noteq> 0" using assms(4) by auto
  have Kpos: "?K ! i \<noteq> 0" if "i < ?n" for i
    using assms(4) that nth_mem[OF that] by fastforce
  let ?q = "map (\<lambda>(k, p, c). Q_where atm k p c) (zip (Strike df1) (zip put_mid call_mid))"
  have qlen: "length ?q = ?n" using len K1 by simp
  have qi: "?q ! i = Fin (q i)" if "i < ?n" for i
  proof -
    have "?q ! i = Q_where atm (?K ! i) (put_mid ! i) (call_mid ! i)"
      using that len K1 by simp
    moreover have "Q_where atm (?K ! i) (put_mid ! i) (call_mid ! i) = Fin (q i)"
      using assms(10)[rule_format, OF that] by (auto simp: Q_where_def)
    ultimately show ?thesis by simp
  qed
  let ?df2 = "df1\<lparr>Q := Some ?q\<rparr>"
  have n2: "2 \<le> length (Strike ?df2)" using assms(2) K1 by simp
  obtain dk df3 where s: "strike_spacing ?df2 = (Inr dk, df3)" and dlen: "length dk = ?n"
    and d3: "df3 = ?df2\<lparr>diff_K_upper := diff_K_upper df3, diff_K_lower := diff_K_lower df3,
                         delta_K := Some dk\<rparr>"
    and rows: "\<forall>i<?n. dk ! i =
              (if i = 0 then Fin \<bar>?K ! 0 - ?K ! 1\<bar>
               else if i = ?n - 1 then Fin \<bar>?K ! i - ?K ! (i - 1)\<bar>
               else Fin ((\<bar>?K ! i - ?K ! (i + 1)\<bar> + \<bar>?K ! i - ?K ! (i - 1)\<bar>) / 2))"
    using strike_spacing_rows[OF n2] K1 by auto
  have K3: "Strike df3 = ?K" by (subst d3) (simp add: K1)
  have lt01: "?K ! 0 < ?K ! 1" using sorted_wrt_nth_less[OF assms(3), of 0 1] assms(2) by simp
  have dki: "dk ! i = Fin (delta_K_spec ?K i)" if i: "i < ?n" for i
  proof -
    consider "i = 0" | "i \<noteq> 0" "i = ?n - 1" | "i \<noteq> 0" "i \<noteq> ?n - 1" by blast
    then show ?thesis
    proof cases
      case 1
      then show ?thesis using rows i lt01 by (simp add: delta_K_spec_def)
    next
      case 2
      have "?K ! (i - 1) < ?K ! i" using sorted_wrt_nth_less[OF assms(3), of "i - 1" i] 2 i by simp
      then show ?thesis using rows i 2 by (simp add: delta_K_spec_def)
    next
      case 3
      then show ?thesis using rows i
        by (simp add: delta_K_spec_def abs_minus_commute add.commute)
    qed
  qed
  define c where
    "c = map (\<lambda>(d, k, qi). contribution_row ir T d k qi) (zip dk (zip (Strike df3) ?q))"
  have clen: "length c = ?n" using dlen K3 qlen by (simp add: c_def)
  have ci: "c ! i = Fin (delta_K_spec ?K i / (?K ! i)\<^sup>2 * exp (ir * T) * q i)"
    if i: "i < ?n" for i
  proof -
    have "c ! i = contribution_row ir T (dk ! i) (?K ! i) (?q ! i)"
      using i dlen K3 qlen by (simp add: c_def)
    then show ?thesis
      using dki[OF i] qi[OF i] Kpos[OF i] by (simp add: contribution_row_def power2_eq_square)
  qed
  have "\<forall>i<length c. c ! i = Fin (delta_K_spec ?K i / (?K ! i)\<^sup>2 * exp (ir * T) * q i)"
    using ci clen by simp
  from nansum_all_Fin[OF this]
  have sum: "nansum c = Fin (\<Sum>i<?n. delta_K_spec ?K i / (?K ! i)\<^sup>2 * exp (ir * T) * q i)"
    using clen by simp
  have run: "fst (compute_sigma df mte fut ir) =
      Inr (fdiv (fsub (fmul (Fin 2) (nansum c))
                  (fmul (fsub (fdiv (Fin fut) (Fin atm)) (Fin 1))
                        (fsub (fdiv (Fin fut) (Fin atm)) (Fin 1))))
             (Fin T))"
    using compute_sigma_run[OF assms(7,8,9) s, of mte ir] by (simp add: T_def c_def)
  show ?thesis
    unfolding run sum using atm T(2)
    by (simp add: fsub_def T(1) power2_eq_square algebra_simps)
qed

theorem compute_sigma_formula_witness:
  "wf_frame near_chain \<and> 2 \<le> length (Strike near_chain) \<and>
   sorted_wrt (<) (Strike near_chain) \<and> list_all (\<lambda>k. 0 < k) (Strike near_chain) \<and>
   hd (Strike near_chain) < 125 \<and>
   fst (cubic_spline_correction (mids_and_spreads near_chain) 125) = Inr 120 \<and>
   Put_Mid (snd (cubic_spline_correction (mids_and_spreads near_chain) 125))
     = Some [Fin 1, Fin 3, Fin 6, NaN, NaN] \<and>
   Call_Mid (snd (cubic_spline_correction (mids_and_spreads near_chain) 125))
     = Some [NaN, NaN, Fin 9, Fin 4, Fin 2] \<and>
   fst (compute_sigma near_chain 12960 125 0) = Inr (Fin (118042545337 / 129859329600)) \<and>
   fst (compute_sigma near_chain 12960 125 (39 / 1000))
     = Inr (Fin ((21197634077 * exp (351 / 365000) / 2404802400 - 365 / 576) / 9))"
proof -
  let ?df1 = "snd (cubic_spline_correction (mids_and_spreads near_chain) 125)"
  define q :: "nat \<Rightarrow> real" where "q = (\<lambda>i. [1, 3, 15 / 2, 4, 2] ! i)"
  have K: "Strike near_chain = [100, 110, 120, 130, 140]"
    by (simp add: near_chain_def option_chain_def)
  have h: "wf_frame near_chain" "2 \<le> length (Strike near_chain)"
    "sorted_wrt (<) (Strike near_chain)" "\<forall>k\<in>set (Strike near_chain). 0 < k"
    "hd (Strike near_chain) < 125" "(0::int) < 12960"
    unfolding K by (simp_all add: near_chain_def option_chain_def wf_frame_def col_ok_def)
  have c: "cubic_spline_correction (mids_and_spreads near_chain) 125 = (Inr 120, ?df1)"
    using near_chain_atm by (simp add: prod_eq_iff)
  have rows: "\<forall>i<length (Strike near_chain).
      (Strike near_chain ! i < 120 \<longrightarrow> [Fin 1, Fin 3, Fin 6, NaN, NaN] ! i = Fin (q i)) \<and>
      (120 < Strike near_chain ! i \<longrightarrow> [NaN, NaN, Fin 9, Fin 4, Fin 2] ! i = Fin (q i)) \<and>
      (Strike near_chain ! i = 120 \<longrightarrow>
         (\<exists>p c. [Fin 1, Fin 3, Fin 6, NaN, NaN] ! i = Fin p \<and>
                [NaN, NaN, Fin 9, Fin 4, Fin 2] ! i = Fin c \<and> q i = (p + c) / 2))"
    unfolding K q_def by (simp add: less_Suc_eq eval_nat_numeral all_conj_distrib)
  from compute_sigma_formula[OF h c near_chain_put_mid near_chain_call_mid rows, of 0]
  have "fst (compute_sigma near_chain 12960 125 0) = Inr (Fin (118042545337 / 129859329600))"
    unfolding K q_def
    by (simp add: delta_K_spec_def eval_nat_numeral sum.lessThan_Suc)
  moreover
  from compute_sigma_formula[OF h c near_chain_put_mid near_chain_call_mid rows, of "39 / 1000"]
  have "fst (compute_sigma near_chain 12960 125 (39 / 1000))
      = Inr (Fin ((21197634077 * exp (351 / 365000) / 2404802400 - 365 / 576) / 9))"
    unfolding K q_def
    by (simp add: delta_K_spec_def eval_nat_numeral sum.lessThan_Suc)
  ultimately show ?thesis
    using h(1,2,3,5) near_chain_atm near_chain_put_mid near_chain_call_mid
    unfolding K by simp
qed

section \<open>C2: a side with fewer than three clean points\<close>

text \<open>
  Claim C2, as stated, fails: on \<open>thin_chain\<close> only two rows are on the call side, all
  corrected call mids are NaN, and \<open>compute_sigma\<close> still returns a finite number.
\<close>

theorem nan_does_not_reach_the_variance:
  "length (knot_points (call_rows (Strike thin_chain) 120)
     [Fin (1 / 13), Fin (2 / 17), Fin (2 / 9), Fin (1 / 4)]) < 3 \<and>
   Call_Spread (mids_and_spreads thin_chain)
     = Some [Fin (1 / 13), Fin (2 / 17), Fin (2 / 9), Fin (1 / 4)] \<and>
   fst (cubic_spline_correction (mids_and_spreads thin_chain) 125) = Inr 120 \<and>
   Call_Mid (snd (cubic_spline_correction (mids_and_spreads thin_chain) 125))
     = Some [NaN, NaN, NaN, NaN] \<and>
   contribution (snd (compute_sigma thin_chain 12960 125 0))
     = Some [Fin (1 / 1000), Fin (3 / 1210), NaN, NaN] \<and>
   fst (compute_sigma thin_chain 12960 125 0) = Inr (Fin (3321427 / 15681600))"
  using thin_chain_sigma thin_chain_contribution thin_chain_correction thin_chain_call_knots
  by simp

text \<open>
  Claim C2, amended.  When fewer than three rows of a side have a spread ratio of at most
  0.3, all corrected mids of that side are NaN; the contribution sum skips the NaN
  contributions, and (on a strip without a zero strike, with a nonzero time to expiry)
  \<open>compute_sigma\<close> returns a finite number, the formula over the contributions that are
  defined.  No insufficient-data condition is raised or returned.
\<close>

theorem missing_side_is_skipped:
  assumes "\<forall>k\<in>set (Strike df). k \<noteq> 0" and "mte \<noteq> 0"
    and "cubic_spline_correction (mids_and_spreads df) fut = (Inr atm, df1)"
    and "Call_Spread (mids_and_spreads df) = Some call_spread"
    and "Put_Spread (mids_and_spreads df) = Some put_spread"
    and "length (knot_points (call_rows (Strike df) atm) call_spread) < 3 \<or>
         length (knot_points (put_rows (Strike df) atm) put_spread) < 3"
  shows "(length (knot_points (call_rows (Strike df) atm) call_spread) < 3 \<longrightarrow>
            Call_Mid df1 = Some (replicate (length (Strike df)) NaN)) \<and>
         (length (knot_points (put_rows (Strike df) atm) put_spread) < 3 \<longrightarrow>
            Put_Mid df1 = Some (replicate (length (Strike df)) NaN)) \<and>
         (\<exists>c. contribution (snd (compute_sigma df mte fut ir)) = Some c \<and>
            fst (compute_sigma df mte fut ir) =
              Inr (Fin ((2 * sum_list (map the_Fin c) - (fut / atm - 1)\<^sup>2)
                        / (real_of_int mte / 525600))))"
proof -
  obtain cm pm where
    sc: "spline_side (Strike (mids_and_spreads df)) (call_rows (Strike (mids_and_spreads df)) atm)
              (Call_Spread (mids_and_spreads df)) (Call_Mid (mids_and_spreads df)) = Inr cm"
    and sp: "spline_side (Strike (mids_and_spreads df)) (put_rows (Strike (mids_and_spreads df)) atm)
              (Put_Spread (mids_and_spreads df)) (Put_Mid (mids_and_spreads df)) = Inr pm"
    and d1: "df1 = (mids_and_spreads df)\<lparr>Call_Mid := Some cm, Put_Mid := Some pm\<rparr>"
    using cubic_spline_correction_Inr[OF assms(3)] by blast
  have call: "Call_Mid df1 = Some (replicate (length (Strike df)) NaN)"
    if "length (knot_points (call_rows (Strike df) atm) call_spread) < 3"
    using spline_side_Inr[OF sc] assms(4) that d1 by auto
  have put: "Put_Mid df1 = Some (replicate (length (Strike df)) NaN)"
    if "length (knot_points (put_rows (Strike df) atm) put_spread) < 3"
    using spline_side_Inr[OF sp] assms(5) that d1 by auto
  show ?thesis
    using call put compute_sigma_finite[OF assms(1,2,3), of ir] by blast
qed

theorem missing_side_is_skipped_witness:
  "list_all (\<lambda>k. k \<noteq> 0) (Strike thin_chain) \<and>
   cubic_spline_correction (mids_and_spreads thin_chain) 125
     = (Inr 120, snd (cubic_spline_correction (mids_and_spreads thin_chain) 125)) \<and>
   knot_points (call_rows (Strike thin_chain) 120)
     [Fin (1 / 13), Fin (2 / 17), Fin (2 / 9), Fin (1 / 4)] = [2, 3] \<and>
   Call_Mid (snd (cubic_spline_correction (mids_and_spreads thin_chain) 125))
     = Some (replicate (length (Strike thin_chain)) NaN) \<and>
   (\<exists>c. contribution (snd (compute_sigma thin_chain 12960 125 0)) = Some c \<and>
      fst (compute_sigma thin_chain 12960 125 0) =
        Inr (Fin ((2 * sum_list (map the_Fin c) - (125 / 120 - 1)\<^sup>2)
                  / (real_of_int 12960 / 525600))))"
proof -
  have h1: "\<forall>k\<in>set (Strike thin_chain). k \<noteq> 0" "(12960::int) \<noteq> 0"
    by (simp_all add: thin_chain_def option_chain_def)
  have h3: "cubic_spline_correction (mids_and_spreads thin_chain) 125
     = (Inr 120, snd (cubic_spline_correction (mids_and_spreads thin_chain) 125))"
    using thin_chain_correction(1) by (simp add: prod_eq_iff)
  have h6: "length (knot_points (call_rows (Strike thin_chain) 120)
       [Fin (1 / 13), Fin (2 / 17), Fin (2 / 9), Fin (1 / 4)]) < 3 \<or>
     length (knot_points (put_rows (Strike thin_chain) 120)
       [Fin (1 / 5), Fin (1 / 6), Fin (1 / 6), Fin (2 / 11)]) < 3"
    by (simp add: thin_chain_call_knots)
  from missing_side_is_skipped[OF h1 h3 thin_chain_correction(2,3) h6, of 0]
  show ?thesis using h1(1) h3 thin_chain_call_knots by (simp add: list_all_iff)
qed

section \<open>C3: the spacing of the expiries\<close>

text \<open>
  Claim C3, as stated, fails: with \<open>mte_1 = 50000\<close>, beyond the 43200 minutes of 30 days,
  \<open>vix_calculator\<close> raises nothing and returns an index of about 45.3.
\<close>

theorem late_expiries_give_a_number:
  "MINUTES_IN_30_DAYS \<le> mte_1 late_data \<and> mte_1 late_data \<noteq> mte_2 late_data \<and>
   fst (vix_calculator late_data) = Inr (Fin (100 * sqrt (246808161049 / 1202401200000)))"
  using late_vix by (simp add: late_data_def toy_data_def MINUTES_IN_30_DAYS_def)

text \<open>
  Claim C3, amended.  \<open>vix_calculator\<close> does not check the spacing of the expiries.  Once
  both variances are computed it fails only when \<open>mte_1 = mte_2\<close>, with Python's
  \<^verbatim>\<open>ZeroDivisionError\<close> from the first weight; for any other pair, on whichever side of
  43200 the expiries are, it returns 100 times the square root of the blend with the
  weights as they come out.
\<close>

theorem expiry_spacing_is_not_checked:
  assumes "compute_sigma (option_chain_1 data) (mte_1 data) (fut_1 data) (ir_1 data)
             = (Inr sigma_1, d1)"
    and "compute_sigma (option_chain_2 data) (mte_2 data) (fut_2 data) (ir_2 data)
             = (Inr sigma_2, d2)"
  shows "fst (vix_calculator data) =
     (if mte_1 data = mte_2 data then Inl ZeroDivisionError
      else Inr (fmul (Fin 100) (fsqrt (fmul (Fin (525600 / 43200))
             (fadd (fmul (fmul (Fin (real_of_int (mte_1 data) / 525600)) sigma_1)
                         (Fin (real_of_int (mte_2 data - 43200)
                               / real_of_int (mte_2 data - mte_1 data))))
                   (fmul (fmul (Fin (real_of_int (mte_2 data) / 525600)) sigma_2)
                         (Fin (real_of_int (43200 - mte_1 data)
                               / real_of_int (mte_2 data - mte_1 data)))))))))"
  using assms
  by (simp add: vix_calculator_def weight_1_def weight_2_def py_div_def
      MINUTES_IN_30_DAYS_def MINUTES_IN_A_YEAR_def Let_def)

theorem expiry_spacing_is_not_checked_witness:
  "fst (compute_sigma (option_chain_1 late_data) (mte_1 late_data) (fut_1 late_data) (ir_1 late_data))
     = Inr (Fin (118042545337 / 501000500000)) \<and>
   fst (compute_sigma (option_chain_2 late_data) (mte_2 late_data) (fut_2 late_data) (ir_2 late_data))
     = Inr (Fin (53657126563 / 200400200000)) \<and>
   fst (vix_calculator late_data) = Inr (Fin (100 * sqrt (246808161049 / 1202401200000))) \<and>
   fst (vix_calculator (late_data\<lparr>mte_2 := 50000\<rparr>)) = Inl ZeroDivisionError"
proof -
  have f: "option_chain_1 late_data = near_chain" "option_chain_2 late_data = next_chain"
    "mte_1 late_data = 50000" "mte_2 late_data = 60000" "fut_1 late_data = 125"
    "fut_2 late_data = 127" "ir_1 late_data = 0" "ir_2 late_data = 0"
    by (simp_all add: late_data_def toy_data_def)
  obtain d1 where p1: "compute_sigma (option_chain_1 late_data) (mte_1 late_data)
      (fut_1 late_data) (ir_1 late_data) = (Inr (Fin (118042545337 / 501000500000)), d1)"
    unfolding f using late_sigma_1 by (cases "compute_sigma near_chain 50000 125 0") simp
  obtain d2 where p2: "compute_sigma (option_chain_2 late_data) (mte_2 late_data)
      (fut_2 late_data) (ir_2 late_data) = (Inr (Fin (53657126563 / 200400200000)), d2)"
    unfolding f using late_sigma_2 by (cases "compute_sigma next_chain 60000 127 0") simp
  let ?e = "late_data\<lparr>mte_2 := 50000\<rparr>"
  have q1: "compute_sigma (option_chain_1 ?e) (mte_1 ?e) (fut_1 ?e) (ir_1 ?e)
      = (Inr (Fin (118042545337 / 501000500000)), d1)"
    using p1 by simp
  obtain d3 where q2: "compute_sigma (option_chain_2 ?e) (mte_2 ?e) (fut_2 ?e) (ir_2 ?e)
      = (Inr (Fin (160971379689 / 501000500000)), d3)"
    using equal_sigma_2 by (cases "compute_sigma next_chain 50000 127 0") (simp add: f)
  have a: "fst (vix_calculator late_data) = Inr (Fin (100 * sqrt (246808161049 / 1202401200000)))"
    using expiry_spacing_is_not_checked[OF p1 p2] by (simp add: f)
  have b: "fst (vix_calculator ?e) = Inl ZeroDivisionError"
    using expiry_spacing_is_not_checked[OF q1 q2] by (simp add: f)
  show ?thesis using p1 p2 a b by simp
qed

section \<open>C4: the blend weights\<close>

text \<open>
  Claim C4.  For every pair of expiries with \<open>mte_1 < 43200 < mte_2\<close>, the two blend
  weights \<open>(mte_2 - 43200) / (mte_2 - mte_1)\<close> and \<open>(43200 - mte_1) / (mte_2 - mte_1)\<close>
  that \<open>vix_calculator\<close> computes are both defined (no division by zero) and sum to
  exactly 1.
\<close>

theorem weights_sum_to_one:
  assumes "m1 < MINUTES_IN_30_DAYS" and "MINUTES_IN_30_DAYS < m2"
  shows "\<exists>w1 w2. weight_1 m1 m2 = Inr w1 \<and> weight_2 m1 m2 = Inr w2 \<and> w1 + w2 = 1"
proof -
  have ne: "m2 - m1 \<noteq> 0" using assms by simp
  have "real_of_int (m2 - MINUTES_IN_30_DAYS) + real_of_int (MINUTES_IN_30_DAYS - m1)
        = real_of_int (m2 - m1)"
    by simp
  then have "real_of_int (m2 - MINUTES_IN_30_DAYS) / real_of_int (m2 - m1)
        + real_of_int (MINUTES_IN_30_DAYS - m1) / real_of_int (m2 - m1) = 1"
    using ne by (simp only: add_divide_distrib[symmetric]) simp
  then show ?thesis using ne by (simp add: weight_1_def weight_2_def py_div_def)
qed

theorem weights_sum_to_one_witness:
  "(12960::int) < MINUTES_IN_30_DAYS \<and> MINUTES_IN_30_DAYS < (53280::int) \<and>
   weight_1 12960 53280 = Inr (1 / 4) \<and> weight_2 12960 53280 = Inr (3 / 4) \<and>
   (\<exists>w1 w2. weight_1 12960 53280 = Inr w1 \<and> weight_2 12960 53280 = Inr w2 \<and> w1 + w2 = 1)"
  using weights_sum_to_one [of 12960 53280]
  by (simp add: MINUTES_IN_30_DAYS_def weight_1_def weight_2_def py_div_def)

section \<open>C5: the ATM strike\<close>

text \<open>
  Claim C5.  On a strip with strictly increasing strikes whose smallest strike is below
  the futures price, the ATM strike that \<open>cubic_spline_correction\<close> selects is the largest
  strike strictly below the futures price; when the futures price equals a strike of the
  grid, it is the strike just before that one.
\<close>

theorem atm_is_largest_strike_below_futures:
  assumes "wf_frame df" and "sorted_wrt (<) (Strike df)" and "Strike df \<noteq> []"
    and "hd (Strike df) < fut"
  shows "loc (Strike df) (int (searchsorted (Strike df) fut) - 1)
           = Inr (Max {k \<in> set (Strike df). k < fut}) \<and>
         fst (cubic_spline_correction (mids_and_spreads df) fut)
           = Inr (Max {k \<in> set (Strike df). k < fut}) \<and>
         (\<forall>atm df'. cubic_spline_correction df fut = (Inr atm, df')
            \<longrightarrow> atm = Max {k \<in> set (Strike df). k < fut}) \<and>
         (\<forall>j<length (Strike df). Strike df ! j = fut \<longrightarrow>
            0 < j \<and> Strike df ! (j - 1) < Strike df ! j \<and>
            Max {k \<in> set (Strike df). k < fut} = Strike df ! (j - 1))"
proof -
  let ?K = "Strike df"
  let ?atm = "Max {k \<in> set ?K. k < fut}"
  have s: "sorted ?K" using assms(2) by (rule strict_sorted_imp_sorted)
  have a: "loc ?K (int (searchsorted ?K fut) - 1) = Inr ?atm"
    by (rule atm_is_largest_below[OF s assms(3,4)])
  have b: "fst (cubic_spline_correction (mids_and_spreads df) fut) = Inr ?atm"
    using cubic_spline_correction_total[OF assms] by auto
  have c: "atm = ?atm" if "cubic_spline_correction df fut = (Inr atm, df')" for atm df'
    using cubic_spline_correction_Inr[OF that] a by auto
  have d: "0 < j \<and> ?K ! (j - 1) < ?K ! j \<and> ?atm = ?K ! (j - 1)"
    if j: "j < length ?K" "?K ! j = fut" for j
  proof -
    have hj: "hd ?K < ?K ! j" using j assms(4) by simp
    have "j \<noteq> 0"
    proof
      assume "j = 0"
      then show False using hj assms(3) by (simp add: hd_conv_nth)
    qed
    then have pos: "0 < j" by simp
    have lt: "?K ! (j - 1) < ?K ! j"
      using sorted_wrt_nth_less[OF assms(2), of "j - 1" j] pos j(1) by simp
    have "?atm = ?K ! (j - 1)"
    proof (rule Max_eqI)
      show "finite {k \<in> set ?K. k < fut}" by simp
      show "?K ! (j - 1) \<in> {k \<in> set ?K. k < fut}" using lt j pos by simp
      fix y assume "y \<in> {k \<in> set ?K. k < fut}"
      then obtain i where i: "i < length ?K" "?K ! i = y" "y < fut"
        by (auto simp: in_set_conv_nth)
      have "i < j"
      proof (rule ccontr)
        assume "\<not> i < j"
        then have "?K ! j \<le> ?K ! i" using s i(1) by (simp add: sorted_iff_nth_mono)
        then show False using i j by simp
      qed
      then have "?K ! i \<le> ?K ! (j - 1)" using s j(1) by (simp add: sorted_iff_nth_mono)
      then show "y \<le> ?K ! (j - 1)" using i by simp
    qed
    then show ?thesis using pos lt by simp
  qed
  show ?thesis using a b c d by blast
qed

theorem atm_is_largest_strike_below_futures_witness:
  "wf_frame near_chain \<and> sorted_wrt (<) (Strike near_chain) \<and> Strike near_chain \<noteq> [] \<and>
   hd (Strike near_chain) < 120 \<and> Strike near_chain ! 2 = 120 \<and>
   fst (cubic_spline_correction (mids_and_spreads near_chain) 120) = Inr 110 \<and>
   fst (cubic_spline_correction (mids_and_spreads near_chain) 125) = Inr 120"
proof -
  have h: "wf_frame near_chain" "sorted_wrt (<) (Strike near_chain)" "Strike near_chain \<noteq> []"
    by (simp_all add: near_chain_def option_chain_def wf_frame_def col_ok_def)
  have h1: "hd (Strike near_chain) < 120" and h2: "hd (Strike near_chain) < 125"
    by (simp_all add: near_chain_def option_chain_def)
  have k: "Strike near_chain ! 2 = 120" "(2::nat) < length (Strike near_chain)"
    "Strike near_chain ! (2 - 1) = 110"
    by (simp_all add: near_chain_def option_chain_def)
  from atm_is_largest_strike_below_futures[OF h h1] k
  have "fst (cubic_spline_correction (mids_and_spreads near_chain) 120) = Inr 110"
    by (metis (no_types, lifting))
  moreover have "fst (cubic_spline_correction (mids_and_spreads near_chain) 125) = Inr 120"
    by (simp add: near_chain_def eval_defs)
  ultimately show ?thesis using h h1 k by simp
qed

section \<open>C6: the strike spacing\<close>

text \<open>
  Claim C6.  For every strip of \<open>n \<ge> 2\<close> rows with strictly increasing strikes (and a
  futures price above the smallest one, so that \<open>compute_sigma\<close> gets as far as the
  spacing), \<open>compute_sigma\<close> returns and leaves a \<^verbatim>\<open>delta_K\<close> column with
  \<open>K[1] - K[0]\<close> in the first row, \<open>K[n-1] - K[n-2]\<close> in the last row and
  \<open>(|K[i] - K[i-1]| + |K[i+1] - K[i]|) / 2\<close> in every row between.
\<close>

theorem delta_K_boundary_and_interior:
  assumes "wf_frame df" and "2 \<le> length (Strike df)" and "sorted_wrt (<) (Strike df)"
    and "hd (Strike df) < fut"
  shows "\<exists>sigma df' dk. compute_sigma df mte fut ir = (Inr sigma, df') \<and>
           delta_K df' = Some dk \<and> length dk = length (Strike df) \<and>
           dk ! 0 = Fin (Strike df ! 1 - Strike df ! 0) \<and>
           dk ! (length (Strike df) - 1)
             = Fin (Strike df ! (length (Strike df) - 1) - Strike df ! (length (Strike df) - 2)) \<and>
           (\<forall>i. 0 < i \<and> i < length (Strike df) - 1 \<longrightarrow>
              dk ! i = Fin ((\<bar>Strike df ! i - Strike df ! (i - 1)\<bar>
                             + \<bar>Strike df ! (i + 1) - Strike df ! i\<bar>) / 2))"
proof -
  let ?K = "Strike df"
  let ?n = "length ?K"
  have ne: "?K \<noteq> []" using assms(2) by auto
  obtain atm df1 cm pm where c: "cubic_spline_correction (mids_and_spreads df) fut = (Inr atm, df1)"
    and cols: "Call_Mid df1 = Some cm" "Put_Mid df1 = Some pm" and K1: "Strike df1 = ?K"
    using cubic_spline_correction_total[OF assms(1,3) ne assms(4)] by blast
  let ?q = "map (\<lambda>(k, p, c). Q_where atm k p c) (zip (Strike df1) (zip pm cm))"
  let ?df2 = "df1\<lparr>Q := Some ?q\<rparr>"
  have n2: "2 \<le> length (Strike ?df2)" using assms(2) K1 by simp
  obtain dk df3 where s: "strike_spacing ?df2 = (Inr dk, df3)" and dk: "delta_K df3 = Some dk"
    "length dk = ?n"
    and rows: "\<forall>i<?n. dk ! i =
              (if i = 0 then Fin \<bar>?K ! 0 - ?K ! 1\<bar>
               else if i = ?n - 1 then Fin \<bar>?K ! i - ?K ! (i - 1)\<bar>
               else Fin ((\<bar>?K ! i - ?K ! (i + 1)\<bar> + \<bar>?K ! i - ?K ! (i - 1)\<bar>) / 2))"
    using strike_spacing_rows[OF n2] K1 by auto
  note run = compute_sigma_run[OF c cols(2,1) s, of mte ir]
  have lt01: "?K ! 0 < ?K ! 1" using sorted_wrt_nth_less[OF assms(3), of 0 1] assms(2) by simp
  have ltl: "?K ! (?n - 2) < ?K ! (?n - 1)"
    using sorted_wrt_nth_less[OF assms(3), of "?n - 2" "?n - 1"] assms(2) by simp
  have first: "dk ! 0 = Fin (?K ! 1 - ?K ! 0)"
    using rows ne lt01 by simp
  have n1: "?n - 1 < ?n" "?n - 1 \<noteq> 0" "?n - 1 - 1 = ?n - 2" using assms(2) by linarith+
  have "dk ! (?n - 1) = Fin \<bar>?K ! (?n - 1) - ?K ! (?n - 1 - 1)\<bar>"
    using rows n1(1,2) by simp
  then have lastrow: "dk ! (?n - 1) = Fin (?K ! (?n - 1) - ?K ! (?n - 2))"
    using ltl n1(3) by simp
  have inner: "dk ! i = Fin ((\<bar>?K ! i - ?K ! (i - 1)\<bar> + \<bar>?K ! (i + 1) - ?K ! i\<bar>) / 2)"
    if "0 < i \<and> i < ?n - 1" for i
  proof -
    have "i < ?n" "i \<noteq> 0" "i \<noteq> ?n - 1" using that by linarith+
    then have "dk ! i = Fin ((\<bar>?K ! i - ?K ! (i + 1)\<bar> + \<bar>?K ! i - ?K ! (i - 1)\<bar>) / 2)"
      using rows by simp
    then show ?thesis by (simp add: abs_minus_commute add.commute)
  qed
  show ?thesis using run dk first lastrow inner by simp
qed

theorem delta_K_boundary_and_interior_witness:
  "wf_frame uneven_chain \<and> 2 \<le> length (Strike uneven_chain) \<and>
   sorted_wrt (<) (Strike uneven_chain) \<and> hd (Strike uneven_chain) < 125 \<and>
   (\<exists>sigma df' dk. compute_sigma uneven_chain 12960 125 0 = (Inr sigma, df') \<and>
      delta_K df' = Some dk \<and> length dk = 5 \<and>
      dk ! 0 = Fin 5 \<and> dk ! 1 = Fin 10 \<and> dk ! 2 = Fin (25 / 2) \<and> dk ! 3 = Fin 15 \<and>
      dk ! 4 = Fin 20)"
proof -
  have K: "Strike uneven_chain = [100, 105, 120, 130, 150]"
    by (simp add: uneven_chain_def option_chain_def)
  have h: "wf_frame uneven_chain" "2 \<le> length (Strike uneven_chain)"
    "sorted_wrt (<) (Strike uneven_chain)" "hd (Strike uneven_chain) < 125"
    unfolding K by (simp_all add: uneven_chain_def option_chain_def wf_frame_def col_ok_def)
  from delta_K_boundary_and_interior[OF h, of 12960 0]
  obtain sigma df' dk where r: "compute_sigma uneven_chain 12960 125 0 = (Inr sigma, df')"
    "delta_K df' = Some dk" "length dk = length (Strike uneven_chain)"
    "dk ! 0 = Fin (Strike uneven_chain ! 1 - Strike uneven_chain ! 0)"
    "dk ! (length (Strike uneven_chain) - 1)
       = Fin (Strike uneven_chain ! (length (Strike uneven_chain) - 1)
              - Strike uneven_chain ! (length (Strike uneven_chain) - 2))"
    "\<forall>i. 0 < i \<and> i < length (Strike uneven_chain) - 1 \<longrightarrow>
        dk ! i = Fin ((\<bar>Strike uneven_chain ! i - Strike uneven_chain ! (i - 1)\<bar>
                       + \<bar>Strike uneven_chain ! (i + 1) - Strike uneven_chain ! i\<bar>) / 2)"
    by blast
  have "dk ! 0 = Fin 5" "dk ! 4 = Fin 20" "length dk = 5" using r(3,4,5) unfolding K by (simp_all add: eval_nat_numeral)
  moreover have "dk ! 1 = Fin 10" "dk ! 2 = Fin (25 / 2)" "dk ! 3 = Fin 15"
    using r(6)[rule_format, of 1] r(6)[rule_format, of 2] r(6)[rule_format, of 3]
    unfolding K by (simp_all add: eval_nat_numeral)
  ultimately show ?thesis using h r(1,2) by simp
qed

section \<open>C7: no extrapolation\<close>

text \<open>
  Claim C7.  When \<open>cubic_spline_correction\<close> returns and a side has at least three clean
  points, the side's spline is built from them, and every row of the strip gets as its
  corrected mid of that side: NaN when its strike is below the smallest or above the
  largest clean knot strike, the value of the spline at its strike otherwise.
\<close>

theorem no_extrapolation_outside_knots:
  assumes "cubic_spline_correction df fut = (Inr atm, df')"
  shows "(\<forall>spread. Call_Spread df = Some spread \<and>
            3 \<le> length (knot_points (call_rows (Strike df) atm) spread) \<longrightarrow>
          (\<exists>mid cs cm. Call_Mid df = Some mid \<and> Call_Mid df' = Some cm \<and>
             CubicSpline (map (\<lambda>i. Strike df ! i) (knot_points (call_rows (Strike df) atm) spread))
                         (map (\<lambda>i. mid ! i) (knot_points (call_rows (Strike df) atm) spread)) = Inr cs \<and>
             length cm = length (Strike df) \<and>
             (\<forall>i<length (Strike df). cm ! i =
                (if Strike df ! i < Min (set (map (\<lambda>i. Strike df ! i)
                                       (knot_points (call_rows (Strike df) atm) spread))) \<or>
                    Max (set (map (\<lambda>i. Strike df ! i)
                                       (knot_points (call_rows (Strike df) atm) spread))) < Strike df ! i
                 then NaN else Fin (ppoly_eval cs (Strike df ! i)))))) \<and>
         (\<forall>spread. Put_Spread df = Some spread \<and>
            3 \<le> length (knot_points (put_rows (Strike df) atm) spread) \<longrightarrow>
          (\<exists>mid cs pm. Put_Mid df = Some mid \<and> Put_Mid df' = Some pm \<and>
             CubicSpline (map (\<lambda>i. Strike df ! i) (knot_points (put_rows (Strike df) atm) spread))
                         (map (\<lambda>i. mid ! i) (knot_points (put_rows (Strike df) atm) spread)) = Inr cs \<and>
             length pm = length (Strike df) \<and>
             (\<forall>i<length (Strike df). pm ! i =
                (if Strike df ! i < Min (set (map (\<lambda>i. Strike df ! i)
                                       (knot_points (put_rows (Strike df) atm) spread))) \<or>
                    Max (set (map (\<lambda>i. Strike df ! i)
                                       (knot_points (put_rows (Strike df) atm) spread))) < Strike df ! i
                 then NaN else Fin (ppoly_eval cs (Strike df ! i))))))"
proof -
  obtain cm pm where
    c: "spline_side (Strike df) (call_rows (Strike df) atm) (Call_Spread df) (Call_Mid df) = Inr cm"
    and p: "spline_side (Strike df) (put_rows (Strike df) atm) (Put_Spread df) (Put_Mid df) = Inr pm"
    and d: "df' = df\<lparr>Call_Mid := Some cm, Put_Mid := Some pm\<rparr>"
    using cubic_spline_correction_Inr[OF assms] by blast
  have cm: "Call_Mid df' = Some cm" and pm: "Put_Mid df' = Some pm" using d by simp_all
  show ?thesis
  proof (intro conjI allI impI)
    fix spread
    assume "Call_Spread df = Some spread \<and>
            3 \<le> length (knot_points (call_rows (Strike df) atm) spread)"
    then show "\<exists>mid cs cm. Call_Mid df = Some mid \<and> Call_Mid df' = Some cm \<and>
             CubicSpline (map (\<lambda>i. Strike df ! i) (knot_points (call_rows (Strike df) atm) spread))
                         (map (\<lambda>i. mid ! i) (knot_points (call_rows (Strike df) atm) spread)) = Inr cs \<and>
             length cm = length (Strike df) \<and>
             (\<forall>i<length (Strike df). cm ! i =
                (if Strike df ! i < Min (set (map (\<lambda>i. Strike df ! i)
                                       (knot_points (call_rows (Strike df) atm) spread))) \<or>
                    Max (set (map (\<lambda>i. Strike df ! i)
                                       (knot_points (call_rows (Strike df) atm) spread))) < Strike df ! i
                 then NaN else Fin (ppoly_eval cs (Strike df ! i))))"
      using spline_side_range[of "Strike df" "call_rows (Strike df) atm" spread "Call_Mid df" cm] c cm
      by auto
  next
    fix spread
    assume "Put_Spread df = Some spread \<and>
            3 \<le> length (knot_points (put_rows (Strike df) atm) spread)"
    then show "\<exists>mid cs pm. Put_Mid df = Some mid \<and> Put_Mid df' = Some pm \<and>
             CubicSpline (map (\<lambda>i. Strike df ! i) (knot_points (put_rows (Strike df) atm) spread))
                         (map (\<lambda>i. mid ! i) (knot_points (put_rows (Strike df) atm) spread)) = Inr cs \<and>
             length pm = length (Strike df) \<and>
             (\<forall>i<length (Strike df). pm ! i =
                (if Strike df ! i < Min (set (map (\<lambda>i. Strike df ! i)
                                       (knot_points (put_rows (Strike df) atm) spread))) \<or>
                    Max (set (map (\<lambda>i. Strike df ! i)
                                       (knot_points (put_rows (Strike df) atm) spread))) < Strike df ! i
                 then NaN else Fin (ppoly_eval cs (Strike df ! i))))"
      using spline_side_range[of "Strike df" "put_rows (Strike df) atm" spread "Put_Mid df" pm] p pm
      by auto
  qed
qed

theorem no_extrapolation_outside_knots_witness:
  "cubic_spline_correction (mids_and_spreads wide_chain) 125
     = (Inr 120, snd (cubic_spline_correction (mids_and_spreads wide_chain) 125)) \<and>
   (\<exists>spread cm. Call_Spread (mids_and_spreads wide_chain) = Some spread \<and>
      knot_points (call_rows (Strike (mids_and_spreads wide_chain)) 120) spread = [2, 3, 4] \<and>
      Call_Mid (snd (cubic_spline_correction (mids_and_spreads wide_chain) 125)) = Some cm \<and>
      length cm = 6 \<and> cm ! 0 = NaN \<and> is_Fin (cm ! 3) \<and> cm ! 5 = NaN)"
proof -
  let ?X = "mids_and_spreads wide_chain"
  let ?S = "[Fin (1 / 13), Fin (2 / 17), Fin (2 / 9), Fin (1 / 4), Fin (1 / 4), Fin 1]"
  have h: "cubic_spline_correction ?X 125 = (Inr 120, snd (cubic_spline_correction ?X 125))"
    using wide_chain_atm by (simp add: prod_eq_iff)
  have sp: "Call_Spread ?X = Some ?S" by (simp add: wide_chain_prepared)
  have kn: "knot_points (call_rows (Strike ?X) 120) ?S = [2, 3, 4]"
    using wide_chain_call_knots by simp
  have K: "Strike ?X = [100, 110, 120, 130, 140, 150]"
    by (simp add: wide_chain_def option_chain_def)
  from no_extrapolation_outside_knots[OF h] sp kn
  obtain cs cm where cm: "Call_Mid (snd (cubic_spline_correction ?X 125)) = Some cm"
    "length cm = length (Strike ?X)"
    "\<forall>i<length (Strike ?X). cm ! i =
        (if Strike ?X ! i < Min (set (map (\<lambda>i. Strike ?X ! i) [2, 3, 4])) \<or>
            Max (set (map (\<lambda>i. Strike ?X ! i) [2, 3, 4])) < Strike ?X ! i
         then NaN else Fin (ppoly_eval cs (Strike ?X ! i)))"
    by (metis (no_types, lifting) one_le_numeral length_Cons list.size(3) numeral_3_eq_3 order_refl)
  have "cm ! 0 = NaN" "is_Fin (cm ! 3)" "cm ! 5 = NaN" "length cm = 6"
    using cm(2,3) unfolding K by simp_all
  then show ?thesis using h sp kn cm(1) by simp
qed

section \<open>C8: the knots keep their mid\<close>

text \<open>
  Claim C8, as stated, fails of the program, which computes in float64.  On \<open>wide_chain\<close>
  with the futures price 125 the call side has the clean knots at the rows 2, 3 and 4.
  Row 4, the largest knot, has the mid 2 before the correction, and after it the last
  piece of the spline evaluated at its right end: \<open>2 - 2^-51\<close>, which prints as
  \<^verbatim>\<open>1.9999999999999996\<close>.
\<close>

theorem largest_knot_is_rounded:
  "\<exists>spread mid cm.
      fst (cubic_spline_correction_f64 (mids_and_spreads wide_chain) 125) = Inr 120 \<and>
      Call_Spread (mids_and_spreads wide_chain) = Some spread \<and>
      knot_points (call_rows (Strike (mids_and_spreads wide_chain)) 120) spread = [2, 3, 4] \<and>
      Call_Mid (mids_and_spreads wide_chain) = Some mid \<and>
      Call_Mid (snd (cubic_spline_correction_f64 (mids_and_spreads wide_chain) 125)) = Some cm \<and>
      mid ! 4 = Fin 2 \<and> is_f64 2 \<and>
      cm ! 4 = Fin (4503599627370495 / 2251799813685248) \<and> cm ! 4 \<noteq> mid ! 4"
proof -
  let ?X = "mids_and_spreads wide_chain"
  let ?S = "[Fin (1 / 13), Fin (2 / 17), Fin (2 / 9), Fin (1 / 4), Fin (1 / 4), Fin 1]"
  let ?M = "[Fin 26, Fin 17, Fin 9, Fin 4, Fin 2, Fin 1]"
  have sp: "Call_Spread ?X = Some ?S" and mid: "Call_Mid ?X = Some ?M"
    by (simp_all add: wide_chain_prepared)
  have kn: "knot_points (call_rows (Strike ?X) 120) ?S = [2, 3, 4]"
    using wide_chain_call_knots by simp
  show ?thesis
    using sp mid kn wide_chain_f64 is_f64_examples by simp
qed

text \<open>
  In exact arithmetic the right end of a piece is the next knot's value, so there every
  knot row, the largest included, keeps its mid: what the largest knot loses in the
  program is rounding error only.
\<close>

lemma exact_spline_keeps_every_knot:
  assumes "cubic_spline_correction df fut = (Inr atm, df')"
  shows "(\<forall>spread k. Call_Spread df = Some spread \<and>
            3 \<le> length (knot_points (call_rows (Strike df) atm) spread) \<and>
            k \<in> set (knot_points (call_rows (Strike df) atm) spread) \<longrightarrow>
          (\<exists>mid cm. Call_Mid df = Some mid \<and> Call_Mid df' = Some cm \<and>
             is_Fin (mid ! k) \<and> cm ! k = mid ! k \<and>
             (\<forall>j<length (Strike df). Strike df ! j = Strike df ! k \<longrightarrow> cm ! j = mid ! k))) \<and>
         (\<forall>spread k. Put_Spread df = Some spread \<and>
            3 \<le> length (knot_points (put_rows (Strike df) atm) spread) \<and>
            k \<in> set (knot_points (put_rows (Strike df) atm) spread) \<longrightarrow>
          (\<exists>mid pm. Put_Mid df = Some mid \<and> Put_Mid df' = Some pm \<and>
             is_Fin (mid ! k) \<and> pm ! k = mid ! k \<and>
             (\<forall>j<length (Strike df). Strike df ! j = Strike df ! k \<longrightarrow> pm ! j = mid ! k)))"
proof -
  obtain cm pm where
    c: "spline_side (Strike df) (call_rows (Strike df) atm) (Call_Spread df) (Call_Mid df) = Inr cm"
    and p: "spline_side (Strike df) (put_rows (Strike df) atm) (Put_Spread df) (Put_Mid df) = Inr pm"
    and d: "df' = df\<lparr>Call_Mid := Some cm, Put_Mid := Some pm\<rparr>"
    using cubic_spline_correction_Inr[OF assms] by blast
  have cm: "Call_Mid df' = Some cm" and pm: "Put_Mid df' = Some pm" using d by simp_all
  have call: "\<exists>mid cm. Call_Mid df = Some mid \<and> Call_Mid df' = Some cm \<and>
             is_Fin (mid ! k) \<and> cm ! k = mid ! k \<and>
             (\<forall>j<length (Strike df). Strike df ! j = Strike df ! k \<longrightarrow> cm ! j = mid ! k)"
    if h: "Call_Spread df = Some spread"
      "3 \<le> length (knot_points (call_rows (Strike df) atm) spread)"
      "k \<in> set (knot_points (call_rows (Strike df) atm) spread)" for spread k
  proof -
    have kb: "k < length (Strike df)"
      using h(3) knot_points_subset call_rows_bound by blast
    obtain mid where m: "Call_Mid df = Some mid" "is_Fin (mid ! k)"
      "\<forall>j<length (Strike df). Strike df ! j = Strike df ! k \<longrightarrow> cm ! j = mid ! k"
      using spline_side_knot[where strikes = "Strike df" and mid_col = "Call_Mid df" and col = cm,
          OF _ h(2,3)] c h(1) by auto
    then have "cm ! k = mid ! k" using kb by simp
    then show ?thesis using m cm by simp
  qed
  have put: "\<exists>mid pm. Put_Mid df = Some mid \<and> Put_Mid df' = Some pm \<and>
             is_Fin (mid ! k) \<and> pm ! k = mid ! k \<and>
             (\<forall>j<length (Strike df). Strike df ! j = Strike df ! k \<longrightarrow> pm ! j = mid ! k)"
    if h: "Put_Spread df = Some spread"
      "3 \<le> length (knot_points (put_rows (Strike df) atm) spread)"
      "k \<in> set (knot_points (put_rows (Strike df) atm) spread)" for spread k
  proof -
    have kb: "k < length (Strike df)"
      using h(3) knot_points_subset put_rows_bound by blast
    obtain mid where m: "Put_Mid df = Some mid" "is_Fin (mid ! k)"
      "\<forall>j<length (Strike df). Strike df ! j = Strike df ! k \<longrightarrow> pm ! j = mid ! k"
      using spline_side_knot[where strikes = "Strike df" and mid_col = "Put_Mid df" and col = pm,
          OF _ h(2,3)] p h(1) by auto
    then have "pm ! k = mid ! k" using kb by simp
    then show ?thesis using m pm by simp
  qed
  show ?thesis using call put by blast
qed

text \<open>
  Claim C8, amended.  When \<open>cubic_spline_correction\<close>, computed in float64, returns and a
  side has at least three clean points, every clean knot row of that side other than the
  largest knot has a finite mid and, the mid being a float64 as every mid of the program
  is, keeps it exactly: its corrected mid is its original mid.  The same value goes to any
  row with the knot's strike.
\<close>

theorem inner_knots_keep_their_mid:
  assumes "cubic_spline_correction_f64 df fut = (Inr atm, df')"
  shows "(\<forall>spread k. Call_Spread df = Some spread \<and>
            3 \<le> length (knot_points (call_rows (Strike df) atm) spread) \<and>
            k \<in> set (butlast (knot_points (call_rows (Strike df) atm) spread)) \<longrightarrow>
          (\<exists>mid cm. Call_Mid df = Some mid \<and> Call_Mid df' = Some cm \<and> is_Fin (mid ! k) \<and>
             (is_f64 (the_Fin (mid ! k)) \<longrightarrow>
                cm ! k = mid ! k \<and>
                (\<forall>j<length (Strike df). Strike df ! j = Strike df ! k \<longrightarrow> cm ! j = mid ! k)))) \<and>
         (\<forall>spread k. Put_Spread df = Some spread \<and>
            3 \<le> length (knot_points (put_rows (Strike df) atm) spread) \<and>
            k \<in> set (butlast (knot_points (put_rows (Strike df) atm) spread)) \<longrightarrow>
          (\<exists>mid pm. Put_Mid df = Some mid \<and> Put_Mid df' = Some pm \<and> is_Fin (mid ! k) \<and>
             (is_f64 (the_Fin (mid ! k)) \<longrightarrow>
                pm ! k = mid ! k \<and>
                (\<forall>j<length (Strike df). Strike df ! j = Strike df ! k \<longrightarrow> pm ! j = mid ! k))))"
proof -
  obtain cm pm where
    c: "spline_side_f64 (Strike df) (call_rows (Strike df) atm) (Call_Spread df) (Call_Mid df) = Inr cm"
    and p: "spline_side_f64 (Strike df) (put_rows (Strike df) atm) (Put_Spread df) (Put_Mid df) = Inr pm"
    and d: "df' = df\<lparr>Call_Mid := Some cm, Put_Mid := Some pm\<rparr>"
    using cubic_spline_correction_f64_Inr[OF assms] by blast
  have cm: "Call_Mid df' = Some cm" and pm: "Put_Mid df' = Some pm" using d by simp_all
  have call: "\<exists>mid cm. Call_Mid df = Some mid \<and> Call_Mid df' = Some cm \<and> is_Fin (mid ! k) \<and>
             (is_f64 (the_Fin (mid ! k)) \<longrightarrow>
                cm ! k = mid ! k \<and>
                (\<forall>j<length (Strike df). Strike df ! j = Strike df ! k \<longrightarrow> cm ! j = mid ! k))"
    if h: "Call_Spread df = Some spread"
      "3 \<le> length (knot_points (call_rows (Strike df) atm) spread)"
      "k \<in> set (butlast (knot_points (call_rows (Strike df) atm) spread))" for spread k
  proof -
    have "k \<in> set (knot_points (call_rows (Strike df) atm) spread)"
      using h(3) by (rule in_set_butlastD)
    then have kb: "k < length (Strike df)"
      using knot_points_subset call_rows_bound by blast
    obtain mid where m: "Call_Mid df = Some mid" "is_Fin (mid ! k)"
      "is_f64 (the_Fin (mid ! k)) \<longrightarrow>
         (\<forall>j<length (Strike df). Strike df ! j = Strike df ! k \<longrightarrow> cm ! j = mid ! k)"
      using spline_side_f64_knot[where strikes = "Strike df" and mid_col = "Call_Mid df"
          and col = cm, OF _ h(2,3)] c h(1) by auto
    then have "is_f64 (the_Fin (mid ! k)) \<longrightarrow> cm ! k = mid ! k" using kb by simp
    then show ?thesis using m cm by simp
  qed
  have put: "\<exists>mid pm. Put_Mid df = Some mid \<and> Put_Mid df' = Some pm \<and> is_Fin (mid ! k) \<and>
             (is_f64 (the_Fin (mid ! k)) \<longrightarrow>
                pm ! k = mid ! k \<and>
                (\<forall>j<length (Strike df). Strike df ! j = Strike df ! k \<longrightarrow> pm ! j = mid ! k))"
    if h: "Put_Spread df = Some spread"
      "3 \<le> length (knot_points (put_rows (Strike df) atm) spread)"
      "k \<in> set (butlast (knot_points (put_rows (Strike df) atm) spread))" for spread k
  proof -
    have "k \<in> set (knot_points (put_rows (Strike df) atm) spread)"
      using h(3) by (rule in_set_butlastD)
    then have kb: "k < length (Strike df)"
      using knot_points_subset put_rows_bound by blast
    obtain mid where m: "Put_Mid df = Some mid" "is_Fin (mid ! k)"
      "is_f64 (the_Fin (mid ! k)) \<longrightarrow>
         (\<forall>j<length (Strike df). Strike df ! j = Strike df ! k \<longrightarrow> pm ! j = mid ! k)"
      using spline_side_f64_knot[where strikes = "Strike df" and mid_col = "Put_Mid df"
          and col = pm, OF _ h(2,3)] p h(1) by auto
    then have "is_f64 (the_Fin (mid ! k)) \<longrightarrow> pm ! k = mid ! k" using kb by simp
    then show ?thesis using m pm by simp
  qed
  show ?thesis using call put by blast
qed

theorem inner_knots_keep_their_mid_witness:
  "cubic_spline_correction_f64 (mids_and_spreads wide_chain) 125
     = (Inr 120, snd (cubic_spline_correction_f64 (mids_and_spreads wide_chain) 125)) \<and>
   (\<exists>spread mid cm. Call_Spread (mids_and_spreads wide_chain) = Some spread \<and>
      knot_points (call_rows (Strike (mids_and_spreads wide_chain)) 120) spread = [2, 3, 4] \<and>
      Call_Mid (mids_and_spreads wide_chain) = Some mid \<and>
      Call_Mid (snd (cubic_spline_correction_f64 (mids_and_spreads wide_chain) 125)) = Some cm \<and>
      mid ! 2 = Fin 9 \<and> is_f64 9 \<and> cm ! 2 = Fin 9 \<and>
      mid ! 3 = Fin 4 \<and> is_f64 4 \<and> cm ! 3 = Fin 4)"
proof -
  let ?X = "mids_and_spreads wide_chain"
  let ?S = "[Fin (1 / 13), Fin (2 / 17), Fin (2 / 9), Fin (1 / 4), Fin (1 / 4), Fin 1]"
  let ?M = "[Fin 26, Fin 17, Fin 9, Fin 4, Fin 2, Fin 1]"
  have h: "cubic_spline_correction_f64 ?X 125 = (Inr 120, snd (cubic_spline_correction_f64 ?X 125))"
    using wide_chain_f64(1) by (simp add: prod_eq_iff)
  have sp: "Call_Spread ?X = Some ?S" and mid: "Call_Mid ?X = Some ?M"
    by (simp_all add: wide_chain_prepared)
  have kn: "knot_points (call_rows (Strike ?X) 120) ?S = [2, 3, 4]"
    using wide_chain_call_knots by simp
  have k2: "Call_Spread ?X = Some ?S \<and> 3 \<le> length (knot_points (call_rows (Strike ?X) 120) ?S)
      \<and> 2 \<in> set (butlast (knot_points (call_rows (Strike ?X) 120) ?S))"
    and k3: "Call_Spread ?X = Some ?S \<and> 3 \<le> length (knot_points (call_rows (Strike ?X) 120) ?S)
      \<and> 3 \<in> set (butlast (knot_points (call_rows (Strike ?X) 120) ?S))"
    using sp kn by simp_all
  note t = inner_knots_keep_their_mid[OF h, THEN conjunct1, rule_format]
  obtain cm where cm: "Call_Mid (snd (cubic_spline_correction_f64 ?X 125)) = Some cm"
    "cm ! 3 = ?M ! 3"
    using t[OF k3] mid is_f64_examples by auto
  have "cm ! 2 = ?M ! 2" using t[OF k2] mid cm(1) is_f64_examples by auto
  then show ?thesis using h sp kn mid cm is_f64_examples by simp
qed

section \<open>C9: the caller's tables\<close>

text \<open>
  Claim C9, as stated, fails: after the call on \<open>toy_data\<close> the caller's first table is
  not what it was; it has a \<^verbatim>\<open>Call Mid\<close> column that it did not have.
\<close>

theorem caller_table_gets_new_columns:
  "Call_Mid (option_chain_1 toy_data) = None \<and>
   fst (vix_calculator toy_data) = Inr (Fin (100 * sqrt (150239171101 / 432864432000))) \<and>
   Call_Mid (fst (snd (vix_calculator toy_data))) = Some [NaN, NaN, Fin 9, Fin 4, Fin 2] \<and>
   fst (snd (vix_calculator toy_data)) \<noteq> option_chain_1 toy_data"
proof -
  have n: "Call_Mid (option_chain_1 toy_data) = None"
    by (simp add: toy_data_def near_chain_def option_chain_def)
  have "Call_Mid (fst (snd (vix_calculator toy_data))) \<noteq> Call_Mid (option_chain_1 toy_data)"
    using toy_vix(2) n by simp
  then have "fst (snd (vix_calculator toy_data)) \<noteq> option_chain_1 toy_data" by auto
  then show ?thesis using n toy_vix by simp
qed

text \<open>
  Claim C9, amended.  The result of \<open>vix_calculator\<close> depends on the five input columns of
  the two tables (and the scalars) only, and the call never changes these five columns;
  but the derived columns are assigned in the caller's own tables: after a normal return
  both carry all nine of them.  Running the call again on tables with the same input
  columns, such as the two it has just modified, gives the same result.
\<close>

theorem caller_tables_keep_inputs_and_gain_columns:
  assumes "vix_calculator data = (r, df_1', df_2')"
  shows "same_inputs (option_chain_1 data) df_1' \<and> same_inputs (option_chain_2 data) df_2' \<and>
         (\<not> isl r \<longrightarrow> derived_assigned df_1' \<and> derived_assigned df_2') \<and>
         (\<forall>a b. same_inputs a (option_chain_1 data) \<and> same_inputs b (option_chain_2 data) \<longrightarrow>
            fst (vix_calculator (data\<lparr>option_chain_1 := a, option_chain_2 := b\<rparr>)) = r)"
proof -
  let ?c1 = "compute_sigma (option_chain_1 data) (mte_1 data) (fut_1 data) (ir_1 data)"
  let ?c2 = "compute_sigma (option_chain_2 data) (mte_2 data) (fut_2 data) (ir_2 data)"
  obtain r1 x1 where c1: "?c1 = (r1, x1)" by (cases ?c1) auto
  obtain r2 x2 where c2: "?c2 = (r2, x2)" by (cases ?c2) auto
  have i1: "same_inputs (option_chain_1 data) x1"
    using same_inputs_compute_sigma[of "option_chain_1 data" "mte_1 data" "fut_1 data" "ir_1 data"] c1
    by simp
  have i2: "same_inputs (option_chain_2 data) x2"
    using same_inputs_compute_sigma[of "option_chain_2 data" "mte_2 data" "fut_2 data" "ir_2 data"] c2
    by simp
  have frames: "same_inputs (option_chain_1 data) df_1' \<and> same_inputs (option_chain_2 data) df_2'"
    using assms i1 i2 c1 c2
    by (auto simp: vix_calculator_def Let_def split: sum.splits)
  have assigned: "derived_assigned df_1' \<and> derived_assigned df_2'" if nl: "\<not> isl r"
  proof -
    obtain s1 where r1: "r1 = Inr s1"
      using assms c1 nl by (cases r1) (auto simp: vix_calculator_def Let_def)
    obtain s2 where r2: "r2 = Inr s2"
      using assms c1 c2 r1 nl by (cases r2) (auto simp: vix_calculator_def Let_def)
    have "df_1' = x1" "df_2' = x2"
      using assms c1 c2 r1 r2 by (auto simp: vix_calculator_def Let_def split: sum.splits)
    then show ?thesis
      using compute_sigma_assigns c1 c2 r1 r2 by blast
  qed
  have again: "fst (vix_calculator (data\<lparr>option_chain_1 := a, option_chain_2 := b\<rparr>)) = r"
    if ab: "same_inputs a (option_chain_1 data) \<and> same_inputs b (option_chain_2 data)" for a b
  proof -
    obtain ra xa where ca: "compute_sigma a (mte_1 data) (fut_1 data) (ir_1 data) = (ra, xa)"
      by (cases "compute_sigma a (mte_1 data) (fut_1 data) (ir_1 data)") auto
    obtain rb xb where cb: "compute_sigma b (mte_2 data) (fut_2 data) (ir_2 data) = (rb, xb)"
      by (cases "compute_sigma b (mte_2 data) (fut_2 data) (ir_2 data)") auto
    have e: "ra = r1" "rb = r2"
      using compute_sigma_reads[of a "option_chain_1 data" "mte_1 data" "fut_1 data" "ir_1 data"]
        compute_sigma_reads[of b "option_chain_2 data" "mte_2 data" "fut_2 data" "ir_2 data"]
        ab ca cb c1 c2 by simp_all
    have "fst (vix_calculator (data\<lparr>option_chain_1 := a, option_chain_2 := b\<rparr>))
            = fst (vix_calculator data)"
      by (simp add: vix_calculator_def Let_def ca cb c1 c2 e split: sum.splits)
    then show ?thesis using assms by simp
  qed
  show ?thesis using frames assigned again by blast
qed

theorem caller_tables_keep_inputs_and_gain_columns_witness:
  "fst (vix_calculator toy_data) = Inr (Fin (100 * sqrt (150239171101 / 432864432000))) \<and>
   same_inputs near_chain (fst (snd (vix_calculator toy_data))) \<and>
   same_inputs next_chain (snd (snd (vix_calculator toy_data))) \<and>
   derived_assigned (fst (snd (vix_calculator toy_data))) \<and>
   derived_assigned (snd (snd (vix_calculator toy_data))) \<and>
   fst (vix_calculator (toy_data\<lparr>option_chain_1 := fst (snd (vix_calculator toy_data)),
                                  option_chain_2 := snd (snd (vix_calculator toy_data))\<rparr>))
     = Inr (Fin (100 * sqrt (150239171101 / 432864432000)))"
proof -
  let ?r = "Inr (Fin (100 * sqrt (150239171101 / 432864432000)))"
  let ?d1 = "fst (snd (vix_calculator toy_data))" and ?d2 = "snd (snd (vix_calculator toy_data))"
  have h: "vix_calculator toy_data = (?r, ?d1, ?d2)"
    using toy_vix(1) by (simp add: prod_eq_iff)
  have c: "option_chain_1 toy_data = near_chain" "option_chain_2 toy_data = next_chain"
    by (simp_all add: toy_data_def)
  note t = caller_tables_keep_inputs_and_gain_columns[OF h]
  have a: "same_inputs near_chain ?d1" "same_inputs next_chain ?d2"
    using t c by simp_all
  have b: "derived_assigned ?d1" "derived_assigned ?d2" using t by simp_all
  have "same_inputs ?d1 (option_chain_1 toy_data) \<and> same_inputs ?d2 (option_chain_2 toy_data)"
    using a c same_inputs_sym by simp
  then have "fst (vix_calculator (toy_data\<lparr>option_chain_1 := ?d1, option_chain_2 := ?d2\<rparr>)) = ?r"
    using t by blast
  then show ?thesis using toy_vix(1) a b by simp
qed

section \<open>C10: a futures price at or below the grid\<close>

text \<open>
  Claim C10.  For every strip whose strikes are all greater than or equal to the futures
  price (its smallest strike is), the insertion search yields position 0, the ATM label
  is \<open>-1\<close>, which no row carries, and the lookup fails with \<^verbatim>\<open>KeyError\<close>:
  \<open>cubic_spline_correction\<close> fails, hence \<open>compute_sigma\<close>, hence \<open>vix_calculator\<close> for
  either of its two strips.  So a successful lookup needs the futures price strictly above
  the smallest strike.
\<close>

theorem atm_lookup_fails_below_grid:
  assumes "\<forall>k\<in>set (Strike df). fut \<le> k"
  shows "searchsorted (Strike df) fut = 0 \<and>
         loc (Strike df) (int (searchsorted (Strike df) fut) - 1) = Inl KeyError \<and>
         fst (cubic_spline_correction df fut) = Inl KeyError \<and>
         fst (compute_sigma df mte fut ir) = Inl KeyError \<and>
         fst (vix_calculator (data\<lparr>option_chain_1 := df, fut_1 := fut\<rparr>)) = Inl KeyError \<and>
         isl (fst (vix_calculator (data\<lparr>option_chain_2 := df, fut_2 := fut\<rparr>)))"
proof -
  have z: "searchsorted (Strike df) fut = 0" using assms by (rule searchsorted_all_ge)
  have a: "loc (Strike df) (int (searchsorted (Strike df) fut) - 1) = Inl KeyError"
    by (simp add: z loc_def)
  have b: "fst (cubic_spline_correction df fut) = Inl KeyError"
    by (simp add: cubic_spline_correction_KeyError z)
  have k: "\<exists>df'. compute_sigma df m fut i = (Inl KeyError, df')" for m i
    using compute_sigma_KeyError[OF z, of m i] by (cases "compute_sigma df m fut i") simp
  obtain df' where "compute_sigma df (mte_1 data) fut (ir_1 data) = (Inl KeyError, df')"
    using k by blast
  then have c: "fst (vix_calculator (data\<lparr>option_chain_1 := df, fut_1 := fut\<rparr>)) = Inl KeyError"
    by (simp add: vix_calculator_def)
  obtain df'' where "compute_sigma df (mte_2 data) fut (ir_2 data) = (Inl KeyError, df'')"
    using k by blast
  then have d: "isl (fst (vix_calculator (data\<lparr>option_chain_2 := df, fut_2 := fut\<rparr>)))"
    by (simp add: vix_calculator_def split: prod.splits sum.splits)
  show ?thesis using z a b c d compute_sigma_KeyError[OF z] by simp
qed

theorem atm_lookup_fails_below_grid_witness:
  "list_all (\<lambda>k. 100 \<le> k) (Strike near_chain) \<and>
   searchsorted (Strike near_chain) 100 = 0 \<and>
   fst (cubic_spline_correction near_chain 100) = Inl KeyError \<and>
   fst (compute_sigma near_chain 12960 100 0) = Inl KeyError \<and>
   fst (vix_calculator (toy_data\<lparr>option_chain_1 := near_chain, fut_1 := 100\<rparr>)) = Inl KeyError"
  using atm_lookup_fails_below_grid [of near_chain 100 12960 0 toy_data]
  by (simp add: near_chain_def option_chain_def)

end
